theory Spec2Isabelle
  imports Main "HOL-Library.Sublist"
begin

section \<open>JavaScript strings\<close>

text \<open>
  A JavaScript string is a sequence of UTF-16 code units; \<open>length\<close>, \<open>slice\<close>,
  \<open>includes\<close> and the regular expressions of the program all work on code units.
  A code unit is modelled as a natural number and a string as a list of them.
  \<open>js\<close> turns an ASCII literal into such a list.
\<close>

type_synonym jschar = nat
type_synonym jsstring = "jschar list"

definition js :: "string \<Rightarrow> jsstring" where
  "js s = map of_char s"

text \<open>The code units the program names.\<close>

definition NL :: jschar where "NL = 10"
definition BACKSLASH :: jschar where "BACKSLASH = 92"
definition DQUOTE :: jschar where "DQUOTE = 34"
definition DOLLAR :: jschar where "DOLLAR = 36"
definition BACKTICK :: jschar where "BACKTICK = 96"
definition BANG :: jschar where "BANG = 33"
definition PERCENT :: jschar where "PERCENT = 37"

text \<open>\<open>s.split('\n')\<close>: the segments between separators; the empty string gives one empty segment.\<close>

fun split :: "jschar \<Rightarrow> jsstring \<Rightarrow> jsstring list" where
  "split c [] = [[]]"
| "split c (x # xs) =
     (if x = c then [] # split c xs
      else (case split c xs of [] \<Rightarrow> [[x]] | l # ls \<Rightarrow> (x # l) # ls))"

text \<open>\<open>a.join('\n')\<close>.\<close>

fun join :: "jschar \<Rightarrow> jsstring list \<Rightarrow> jsstring" where
  "join c [] = []"
| "join c [l] = l"
| "join c (l # ls) = l @ c # join c ls"

text \<open>\<open>s.slice(-n)\<close> for \<open>n \<ge> 0\<close>: the last \<open>n\<close> elements; \<open>slice(-0)\<close> is \<open>slice(0)\<close>, the whole string.\<close>

definition slice_last :: "nat \<Rightarrow> 'a list \<Rightarrow> 'a list" where
  "slice_last n s = (if n = 0 then s else drop (length s - n) s)"

text \<open>\<open>s.includes(p)\<close>: \<open>p\<close> occurs in \<open>s\<close> as a contiguous substring.\<close>

fun startsWith :: "jsstring \<Rightarrow> jsstring \<Rightarrow> bool" where
  "startsWith s [] = True"
| "startsWith [] (p # ps) = False"
| "startsWith (x # xs) (p # ps) = (x = p \<and> startsWith xs ps)"

fun includesStr :: "jsstring \<Rightarrow> jsstring \<Rightarrow> bool" where
  "includesStr [] p = (p = [])"
| "includesStr (x # xs) p = (startsWith (x # xs) p \<or> includesStr xs p)"

text \<open>
  White space and line terminators of ECMAScript, the code units that \<open>trim\<close> removes and
  \<open>\s\<close> matches.
\<close>

definition isWhiteSpace :: "jschar \<Rightarrow> bool" where
  "isWhiteSpace c =
     (c = 9 \<or> c = 10 \<or> c = 11 \<or> c = 12 \<or> c = 13 \<or> c = 32 \<or> c = 160 \<or> c = 5760
      \<or> (8192 \<le> c \<and> c \<le> 8202) \<or> c = 8232 \<or> c = 8233 \<or> c = 8239 \<or> c = 8287
      \<or> c = 12288 \<or> c = 65279)"

definition trimStart :: "jsstring \<Rightarrow> jsstring" where
  "trimStart s = dropWhile isWhiteSpace s"

definition trimEnd :: "jsstring \<Rightarrow> jsstring" where
  "trimEnd s = rev (dropWhile isWhiteSpace (rev s))"

definition trim :: "jsstring \<Rightarrow> jsstring" where
  "trim s = trimEnd (trimStart s)"

section \<open>The tmux bridge\<close>

text \<open>
  Every bridge operation hands one command line to \<open>execPromise\<close>, which runs it in a shell.
  The shell is outside the program: it is a parameter \<open>sh\<close> that answers a command line
  with its standard output, or with \<open>None\<close> when the promise is rejected. The command lines
  handed over are recorded in a trace, so that "no external call was made" is a statement
  about the trace.
\<close>

datatype error = InvalidSessionName | ExecFailed | SessionExists

type_synonym shell = "jsstring \<Rightarrow> jsstring option"
type_synonym trace = "jsstring list"

definition execPromise :: "shell \<Rightarrow> jsstring \<Rightarrow> trace \<Rightarrow> jsstring option \<times> trace" where
  "execPromise sh cmd tr = (sh cmd, tr @ [cmd])"

text \<open>\<open>process.env.TMUX_SESSION || 'termo-main'\<close>; the environment variable may be absent.\<close>

definition DEFAULT_SESSION :: "jsstring option \<Rightarrow> jsstring" where
  "DEFAULT_SESSION env =
     (case env of None \<Rightarrow> js ''termo-main''
      | Some v \<Rightarrow> if v = [] then js ''termo-main'' else v)"

text \<open>The character class \<open>[a-zA-Z0-9_-]\<close>.\<close>

definition nameChar :: "jschar \<Rightarrow> bool" where
  "nameChar c =
     ((97 \<le> c \<and> c \<le> 122) \<or> (65 \<le> c \<and> c \<le> 90) \<or> (48 \<le> c \<and> c \<le> 57) \<or> c = 95 \<or> c = 45)"

text \<open>\<open>/^[a-zA-Z0-9_-]+$/.test(name) && name.length <= 50\<close>.\<close>

definition isValidSessionName :: "jsstring \<Rightarrow> bool" where
  "isValidSessionName name = ((name \<noteq> [] \<and> list_all nameChar name) \<and> length name \<le> 50)"

definition sanitizeSessionName :: "jsstring \<Rightarrow> error + jsstring" where
  "sanitizeSessionName name =
     (if \<not> isValidSessionName name then Inl InvalidSessionName else Inr name)"

text \<open>
  \<open>sessionName ? sanitizeSessionName(sessionName) : DEFAULT_SESSION\<close>, the first line of
  every operation with an optional session name: an absent name and the empty string are
  both falsy and select the default.
\<close>

definition sessionOrDefault :: "jsstring option \<Rightarrow> jsstring option \<Rightarrow> error + jsstring" where
  "sessionOrDefault env sessionName =
     (case sessionName of
        None \<Rightarrow> Inr (DEFAULT_SESSION env)
      | Some n \<Rightarrow> if n = [] then Inr (DEFAULT_SESSION env) else sanitizeSessionName n)"

text \<open>\<open>.replace(/c/g, r)\<close> for a pattern that is one literal character.\<close>

definition replaceAll :: "jschar \<Rightarrow> jsstring \<Rightarrow> jsstring \<Rightarrow> jsstring" where
  "replaceAll c r s = concat (map (\<lambda>x. if x = c then r else [x]) s)"

text \<open>The chain of replacements of \<open>sendToTmux\<close>, in the order of the source.\<close>

definition escaped :: "jsstring \<Rightarrow> jsstring" where
  "escaped text =
     replaceAll NL [BACKSLASH, 110]
      (replaceAll PERCENT [PERCENT, PERCENT]
        (replaceAll BANG [BACKSLASH, BANG]
          (replaceAll BACKTICK [BACKSLASH, BACKTICK]
            (replaceAll DOLLAR [BACKSLASH, DOLLAR]
              (replaceAll DQUOTE [BACKSLASH, DQUOTE]
                (replaceAll BACKSLASH [BACKSLASH, BACKSLASH] text))))))"

definition isTmuxSessionActive ::
  "jsstring option \<Rightarrow> shell \<Rightarrow> jsstring option \<Rightarrow> trace \<Rightarrow> (error + bool) \<times> trace" where
  "isTmuxSessionActive env sh sessionName tr =
     (case sessionOrDefault env sessionName of
        Inl e \<Rightarrow> (Inl e, tr)
      | Inr session \<Rightarrow>
          (case execPromise sh (js ''tmux has-session -t '' @ session @ js '' 2>/dev/null'') tr of
             (None, tr') \<Rightarrow> (Inr False, tr')
           | (Some out, tr') \<Rightarrow> (Inr True, tr')))"

definition createTmuxSession ::
  "jsstring option \<Rightarrow> shell \<Rightarrow> jsstring option \<Rightarrow> trace \<Rightarrow> (error + bool) \<times> trace" where
  "createTmuxSession env sh sessionName tr =
     (case sessionOrDefault env sessionName of
        Inl e \<Rightarrow> (Inl e, tr)
      | Inr session \<Rightarrow>
          (case execPromise sh (js ''tmux new-session -d -s '' @ session @ js '' -x 120 -y 30'') tr of
             (None, tr') \<Rightarrow> (Inr False, tr')
           | (Some out, tr') \<Rightarrow> (Inr True, tr')))"

definition sendToTmux ::
  "jsstring option \<Rightarrow> shell \<Rightarrow> jsstring \<Rightarrow> jsstring option \<Rightarrow> trace \<Rightarrow> (error + unit) \<times> trace" where
  "sendToTmux env sh text sessionName tr =
     (case sessionOrDefault env sessionName of
        Inl e \<Rightarrow> (Inl e, tr)
      | Inr session \<Rightarrow>
          (case execPromise sh
                  (js ''tmux send-keys -t '' @ session @ js '' '' @ [DQUOTE] @ escaped text @ [DQUOTE]) tr of
             (None, tr') \<Rightarrow> (Inl ExecFailed, tr')
           | (Some out, tr') \<Rightarrow> (Inr (), tr')))"

definition sendEnterToTmux ::
  "jsstring option \<Rightarrow> shell \<Rightarrow> jsstring option \<Rightarrow> trace \<Rightarrow> (error + unit) \<times> trace" where
  "sendEnterToTmux env sh sessionName tr =
     (case sessionOrDefault env sessionName of
        Inl e \<Rightarrow> (Inl e, tr)
      | Inr session \<Rightarrow>
          (case execPromise sh (js ''tmux send-keys -t '' @ session @ js '' Enter'') tr of
             (None, tr') \<Rightarrow> (Inl ExecFailed, tr')
           | (Some out, tr') \<Rightarrow> (Inr (), tr')))"

definition sendCtrlC ::
  "jsstring option \<Rightarrow> shell \<Rightarrow> jsstring option \<Rightarrow> trace \<Rightarrow> (error + unit) \<times> trace" where
  "sendCtrlC env sh sessionName tr =
     (case sessionOrDefault env sessionName of
        Inl e \<Rightarrow> (Inl e, tr)
      | Inr session \<Rightarrow>
          (case execPromise sh (js ''tmux send-keys -t '' @ session @ js '' C-c'') tr of
             (None, tr') \<Rightarrow> (Inl ExecFailed, tr')
           | (Some out, tr') \<Rightarrow> (Inr (), tr')))"

definition clearScrollback ::
  "jsstring option \<Rightarrow> shell \<Rightarrow> jsstring option \<Rightarrow> trace \<Rightarrow> (error + unit) \<times> trace" where
  "clearScrollback env sh sessionName tr =
     (case sessionOrDefault env sessionName of
        Inl e \<Rightarrow> (Inl e, tr)
      | Inr session \<Rightarrow>
          (case execPromise sh (js ''tmux clear-history -t '' @ session) tr of
             (None, tr') \<Rightarrow> (Inr (), tr')
           | (Some out, tr') \<Rightarrow> (Inr (), tr')))"

definition capturePane ::
  "jsstring option \<Rightarrow> shell \<Rightarrow> jsstring option \<Rightarrow> trace \<Rightarrow> (error + jsstring) \<times> trace" where
  "capturePane env sh sessionName tr =
     (case sessionOrDefault env sessionName of
        Inl e \<Rightarrow> (Inl e, tr)
      | Inr session \<Rightarrow>
          (case execPromise sh (js ''tmux capture-pane -t '' @ session @ js '' -p -S -500'') tr of
             (None, tr') \<Rightarrow> (Inr [], tr')
           | (Some out, tr') \<Rightarrow> (Inr (trim out), tr')))"

definition killTmuxSession ::
  "jsstring option \<Rightarrow> shell \<Rightarrow> jsstring option \<Rightarrow> trace \<Rightarrow> (error + unit) \<times> trace" where
  "killTmuxSession env sh sessionName tr =
     (case sessionOrDefault env sessionName of
        Inl e \<Rightarrow> (Inl e, tr)
      | Inr session \<Rightarrow>
          (case execPromise sh (js ''tmux kill-session -t '' @ session) tr of
             (None, tr') \<Rightarrow> (Inr (), tr')
           | (Some out, tr') \<Rightarrow> (Inr (), tr')))"

definition renameTmuxSession ::
  "shell \<Rightarrow> jsstring \<Rightarrow> jsstring \<Rightarrow> trace \<Rightarrow> (error + bool) \<times> trace" where
  "renameTmuxSession sh oldName newName tr =
     (case sanitizeSessionName oldName of
        Inl e \<Rightarrow> (Inl e, tr)
      | Inr oldSession \<Rightarrow>
          (case sanitizeSessionName newName of
             Inl e \<Rightarrow> (Inl e, tr)
           | Inr newSession \<Rightarrow>
               (case execPromise sh
                       (js ''tmux rename-session -t '' @ oldSession @ js '' '' @ newSession) tr of
                  (None, tr') \<Rightarrow> (Inr False, tr')
                | (Some out, tr') \<Rightarrow> (Inr True, tr'))))"

text \<open>
  The single-session variant of the bridge takes its one session name from the environment
  when the module is loaded and checks it there, with \<open>/^[a-zA-Z0-9_-]+$/\<close> and no bound on
  the length; loading fails when the check does.
\<close>

definition TMUX_SESSION :: "jsstring option \<Rightarrow> error + jsstring" where
  "TMUX_SESSION env =
     (let raw = DEFAULT_SESSION env in
      if \<not> (raw \<noteq> [] \<and> list_all nameChar raw) then Inl InvalidSessionName else Inr raw)"

text \<open>A shell in which every command fails, as when tmux is not installed.\<close>

definition noShell :: shell where
  "noShell cmd = None"

subsection \<open>What the claims say, in the words of the specification\<close>

text \<open>
  The escape of one character as the specification lists it: a backslash before a backslash,
  a double quote, a dollar sign, a backtick and an exclamation mark; a doubled percent sign;
  the two characters backslash and \<open>n\<close> for a newline; every other character unchanged.
\<close>

definition escapeChar :: "jschar \<Rightarrow> jsstring" where
  "escapeChar c =
     (if c = BACKSLASH \<or> c = DQUOTE \<or> c = DOLLAR \<or> c = BACKTICK \<or> c = BANG then [BACKSLASH, c]
      else if c = PERCENT then [PERCENT, PERCENT]
      else if c = NL then [BACKSLASH, 110]
      else [c])"

text \<open>
  A scan of the text between the two double quotes of the command line, the way a POSIX
  shell reads a double-quoted word: a backslash takes the next character with it; a double
  quote, a dollar sign or a backtick met outside such a pair would end the word or start an
  expansion. \<open>quotedLiteral s\<close> holds when the scan reaches the end of \<open>s\<close> without meeting
  one, and without a backslash left dangling before the closing quote.
\<close>

fun quotedLiteral :: "jsstring \<Rightarrow> bool" where
  "quotedLiteral [] = True"
| "quotedLiteral [c] = (c \<noteq> BACKSLASH \<and> c \<noteq> DQUOTE \<and> c \<noteq> DOLLAR \<and> c \<noteq> BACKTICK)"
| "quotedLiteral (c # d # s) =
     (if c = BACKSLASH then quotedLiteral s
      else c \<noteq> DQUOTE \<and> c \<noteq> DOLLAR \<and> c \<noteq> BACKTICK \<and> quotedLiteral (d # s))"

text \<open>The pattern \<open>^[A-Za-z0-9_-]{1,50}$\<close> of the specification.\<close>

definition matchesNamePattern :: "jsstring \<Rightarrow> bool" where
  "matchesNamePattern name = (1 \<le> length name \<and> length name \<le> 50 \<and> list_all nameChar name)"

section \<open>The screen classifier\<close>

text \<open>
  \<open>parseClaudeStatus\<close> looks at the last ten lines of the screen for three literals made of
  characters outside ASCII: the character class of \<open>hasSpinner\<close>, the check mark of
  \<open>isDone\<close>, and the star in front of \<open>thinking\<close>. They are data, not logic, and the
  classifier takes them as a parameter: what is proved about it holds for every choice of
  them. \<open>sourceGlyphs\<close> are the literals as the file of the classifier holds them: the class
  has the five members U+00E2, U+2014, U+2039, U+201C and U+2018, the check mark is the
  three code units U+00E2 U+0153 U+201C, and the star is U+00E2 U+0153 U+00A6.

  \<open>String.prototype.toLowerCase\<close> is the Unicode case mapping of the host. The classifier
  takes it as a parameter too, so that what is proved holds for the host's mapping whatever
  it does outside ASCII; \<open>asciiLowerCase\<close> is that mapping on ASCII text and serves for
  concrete screens.
\<close>

record glyphs =
  spinnerClass :: "jschar list"
  checkMark :: jsstring
  star :: jsstring

definition sourceGlyphs :: glyphs where
  "sourceGlyphs = \<lparr> spinnerClass = [226, 8212, 8249, 8220, 8216],
                    checkMark = [226, 339, 8220],
                    star = [226, 339, 166] \<rparr>"

definition asciiLowerCase :: "jsstring \<Rightarrow> jsstring" where
  "asciiLowerCase s = map (\<lambda>c. if 65 \<le> c \<and> c \<le> 90 then c + 32 else c) s"

text \<open>\<open>/[...]/.test(s)\<close> for a character class: some code unit of \<open>s\<close> is a member.\<close>

definition testClass :: "jschar list \<Rightarrow> jsstring \<Rightarrow> bool" where
  "testClass members s = list_ex (\<lambda>c. c \<in> set members) s"

record claudeStatus =
  isThinking :: bool
  isReady :: bool
  isDone :: bool
  status :: jsstring

text \<open>\<open>lines.slice(-10)\<close> and \<open>lines.slice(-10).join('\n')\<close>.\<close>

definition lastTen :: "jsstring \<Rightarrow> jsstring list" where
  "lastTen screen = slice_last 10 (split NL screen)"

definition lastTenLines :: "jsstring \<Rightarrow> jsstring" where
  "lastTenLines screen = join NL (lastTen screen)"

text \<open>The test of one line for the prompt: \<open>trimmed === '>' || trimmed.startsWith('> ')\<close>.\<close>

definition isPromptLine :: "jsstring \<Rightarrow> bool" where
  "isPromptLine line = (let trimmed = trim line in trimmed = js ''>'' \<or> startsWith trimmed (js ''> ''))"

definition parseClaudeStatus :: "glyphs \<Rightarrow> (jsstring \<Rightarrow> jsstring) \<Rightarrow> jsstring \<Rightarrow> claudeStatus" where
  "parseClaudeStatus g toLowerCase screen =
     (let lastTenLower = toLowerCase (lastTenLines screen);
          hasSpinner = testClass (spinnerClass g) (lastTenLines screen);
          hasThinkingText =
            (includesStr lastTenLower (js ''thinking'')
             \<or> includesStr lastTenLower (star g @ js '' thinking'')
             \<or> includesStr (lastTenLines screen) (js ''esc to interrupt''));
          thinking = (hasSpinner \<or> hasThinkingText);
          hasPrompt = list_ex isPromptLine (lastTen screen);
          ready = (hasPrompt \<and> \<not> thinking);
          done = (includesStr lastTenLower (checkMark g)
                  \<or> (includesStr lastTenLower (js ''done'') \<and> \<not> includesStr lastTenLower (js ''undo'')))
      in \<lparr> isThinking = thinking, isReady = ready, isDone = done,
           status = (if thinking then js ''thinking''
                     else if ready then js ''ready''
                     else if done then js ''done''
                     else js ''unknown'') \<rparr>)"

subsection \<open>What the claims say about the classifier\<close>

text \<open>The last line of a list of lines that is not blank, if there is one.\<close>

definition lastNonBlank :: "jsstring list \<Rightarrow> jsstring option" where
  "lastNonBlank ls = (case filter (\<lambda>l. trim l \<noteq> []) ls of [] \<Rightarrow> None | x # xs \<Rightarrow> Some (last (x # xs)))"

text \<open>\<open>p\<close> occurs in \<open>s\<close> at position \<open>i\<close>.\<close>

definition occursAt :: "jsstring \<Rightarrow> jsstring \<Rightarrow> nat \<Rightarrow> bool" where
  "occursAt p s i = (i + length p \<le> length s \<and> take (length p) (drop i s) = p)"

text \<open>
  The reading of claim C5 as it is worded: the window holds the check mark, or it holds an
  occurrence of "done" that shares no character with an occurrence of "undo".
\<close>

definition doneAsClaimed :: "glyphs \<Rightarrow> jsstring \<Rightarrow> bool" where
  "doneAsClaimed g w =
     (includesStr w (checkMark g)
      \<or> list_ex (\<lambda>i. occursAt (js ''done'') w i
                     \<and> \<not> list_ex (\<lambda>j. occursAt (js ''undo'') w j \<and> j < i + 4 \<and> i < j + 4) [0..<length w])
           [0..<length w])"

section \<open>Chunking of screen content\<close>

definition TELEGRAM_MAX_LENGTH :: nat where
  "TELEGRAM_MAX_LENGTH = 4000"

text \<open>
  The loop \<open>for (const line of lines)\<close> of \<open>splitScreenContent\<close> with its two variables,
  \<open>currentChunk\<close> and \<open>chunks\<close>, and the final push after it. The empty string is falsy:
  \<open>if (currentChunk)\<close> is \<open>currentChunk \<noteq> []\<close>.
\<close>

fun chunkLoop :: "nat \<Rightarrow> jsstring list \<Rightarrow> jsstring \<Rightarrow> jsstring list \<Rightarrow> jsstring list" where
  "chunkLoop maxLen [] currentChunk chunks =
     (if currentChunk \<noteq> [] then chunks @ [currentChunk] else chunks)"
| "chunkLoop maxLen (line # rest) currentChunk chunks =
     (if length (currentChunk @ NL # line) > maxLen
      then chunkLoop maxLen rest line
             (if currentChunk \<noteq> [] then chunks @ [currentChunk] else chunks)
      else chunkLoop maxLen rest
             (if currentChunk \<noteq> [] then currentChunk @ NL # line else line) chunks)"

text \<open>
  The function with its limit as a parameter, and \<open>splitScreenContent\<close> itself, whose limit
  is \<open>TELEGRAM_MAX_LENGTH - 20\<close>.
\<close>

definition splitWithLimit :: "nat \<Rightarrow> jsstring \<Rightarrow> jsstring list" where
  "splitWithLimit maxLen screen =
     (if length screen \<le> maxLen then [screen]
      else chunkLoop maxLen (split NL screen) [] [])"

definition splitScreenContent :: "jsstring \<Rightarrow> jsstring list" where
  "splitScreenContent screen = splitWithLimit (TELEGRAM_MAX_LENGTH - 20) screen"

subsection \<open>What the claim says about the chunks\<close>

text \<open>
  The lines the chunks keep, as a function of the lines of the text: an empty line is left
  out when, at the moment the loop meets it, the chunk being built is empty or is already
  \<open>n\<close> or more characters long; every other line is kept. \<open>len\<close> is the length of the chunk
  being built, which starts anew with a line that does not fit.
\<close>

fun linesKept :: "nat \<Rightarrow> jsstring list \<Rightarrow> nat \<Rightarrow> jsstring list" where
  "linesKept n [] len = []"
| "linesKept n (l # ls) len =
     (if l = [] \<and> (len = 0 \<or> n < len + 1) then linesKept n ls 0
      else l # linesKept n ls
                 (if len = 0 \<or> n < len + 1 + length l then length l else len + 1 + length l))"

text \<open>
  A screen of 34 lines that fill a chunk to the limit of 3980 characters: 33 lines of 119
  letters \<open>a\<close> and one of 20.
\<close>

definition wideLine :: jsstring where
  "wideLine = replicate 119 97"

definition fullChunkLines :: "jsstring list" where
  "fullChunkLines = wideLine # replicate 32 wideLine @ [replicate 20 97]"

section \<open>The session manager\<close>

text \<open>
  \<open>activeSessions\<close> is a map from the key \<open>`${userId}:${name}`\<close> to the session object. The
  persisted store is the table \<open>sessions\<close> with its unique key \<open>(user_id, name)\<close>; of a row
  the model keeps the column \<open>cwd\<close> (the row id and the two timestamps are left out). User
  ids are integers, printed in decimal.
\<close>

record TerminalSession =
  name :: jsstring
  userId :: int
  cwd :: jsstring
  outputBuffer :: jsstring
  isRunning :: bool

record manager =
  activeSessions :: "jsstring \<rightharpoonup> TerminalSession"
  sessions :: "(int \<times> jsstring) \<rightharpoonup> jsstring"

fun digits :: "nat \<Rightarrow> jsstring" where
  "digits n = (if n < 10 then [48 + n] else digits (n div 10) @ [48 + n mod 10])"

declare digits.simps [simp del]

text \<open>The number a string of decimal digits stands for.\<close>

definition digitsValue :: "jsstring \<Rightarrow> nat" where
  "digitsValue s = foldl (\<lambda>a c. 10 * a + (c - 48)) 0 s"

definition numberToString :: "int \<Rightarrow> jsstring" where
  "numberToString i = (if i < 0 then 45 # digits (nat (- i)) else digits (nat i))"

definition sessionKey :: "int \<Rightarrow> jsstring \<Rightarrow> jsstring" where
  "sessionKey uid n = numberToString uid @ 58 # n"

text \<open>\<open>INSERT ... ON CONFLICT(user_id, name) DO UPDATE SET cwd = excluded.cwd\<close>.\<close>

definition saveSession ::
  "((int \<times> jsstring) \<rightharpoonup> jsstring) \<Rightarrow> int \<Rightarrow> jsstring \<Rightarrow> jsstring \<Rightarrow> ((int \<times> jsstring) \<rightharpoonup> jsstring)" where
  "saveSession db uid n c = db((uid, n) \<mapsto> c)"

text \<open>
  \<open>createSession(userId, name, cwd?)\<close>; \<open>homedir\<close> is what \<open>os.homedir()\<close> returns. The
  result is the error thrown or the session returned, with the state after the call.
\<close>

definition createSession ::
  "jsstring \<Rightarrow> manager \<Rightarrow> int \<Rightarrow> jsstring \<Rightarrow> jsstring option \<Rightarrow> (error + TerminalSession) \<times> manager" where
  "createSession homedir st uid n cwdArg =
     (let key = sessionKey uid n in
      if activeSessions st key \<noteq> None then (Inl SessionExists, st)
      else
        (let sessionCwd = (case cwdArg of None \<Rightarrow> homedir
                           | Some c \<Rightarrow> if c = [] then homedir else c);
             session = \<lparr> name = n, userId = uid, cwd = sessionCwd, outputBuffer = [],
                         isRunning = False \<rparr>
         in (Inr session,
             st \<lparr> activeSessions := (activeSessions st)(key \<mapsto> session),
                  sessions := saveSession (sessions st) uid n sessionCwd \<rparr>)))"

section \<open>The command executor: output and working directory\<close>

text \<open>
  \<open>runCommand\<close> spawns a shell and installs handlers for what the process does. The process
  is outside the program, so what it does is the input of the model: the chunks it writes to
  its standard output and standard error, in their order, and how it ends (it closes with an
  exit code or with none, spawning fails with a message, or the timeout fires first). The
  elapsed time and \<open>existsSync\<close> are inputs as well.
\<close>

record ExecuteOptions =
  shell :: jsstring
  timeout :: nat
  maxOutput :: nat

record ExecutionResult =
  "output" :: jsstring
  exitCode :: int
  duration :: nat
  truncated :: bool
  newCwd :: "jsstring option"

text \<open>The two buffers of one call of \<open>runCommand\<close>.\<close>

record buffers =
  stdout :: jsstring
  stderr :: jsstring

datatype data = Stdout jsstring | Stderr jsstring

datatype ending = Close "int option" | SpawnError jsstring | TimedOut

text \<open>
  The \<open>data\<close> handlers: append, then cut to the last \<open>maxOutput\<close> characters once the buffer
  is longer than twice \<open>maxOutput\<close>.
\<close>

fun onData :: "ExecuteOptions \<Rightarrow> buffers \<Rightarrow> data \<Rightarrow> buffers" where
  "onData options b (Stdout t) =
     (let s = stdout b @ t in
      b \<lparr> stdout := (if length s > maxOutput options * 2 then slice_last (maxOutput options) s else s) \<rparr>)"
| "onData options b (Stderr t) =
     (let s = stderr b @ t in
      b \<lparr> stderr := (if length s > maxOutput options * 2 then slice_last (maxOutput options) s else s) \<rparr>)"

definition collect :: "ExecuteOptions \<Rightarrow> data list \<Rightarrow> buffers" where
  "collect options ds = foldl (onData options) \<lparr> stdout = [], stderr = [] \<rparr> ds"

text \<open>
  \<open>command.match(/^\s*cd\s+(.+?)\s*$/)\<close> as a test. After leading white space the command
  starts with \<open>cd\<close>; what follows is a non-empty run \<open>w\<close> of white space and a rest \<open>r\<close>.
  If \<open>r\<close> is not empty the group \<open>(.+?)\<close> has to reach from the start of \<open>r\<close> to its last
  character that is not white space, and the dot matches no line terminator; if \<open>r\<close> is empty
  the group has to take a character of \<open>w\<close> after the first that is not a line terminator.
\<close>

definition isLineTerminator :: "jschar \<Rightarrow> bool" where
  "isLineTerminator c = (c = 10 \<or> c = 13 \<or> c = 8232 \<or> c = 8233)"

definition cdMatch :: "jsstring \<Rightarrow> bool" where
  "cdMatch command =
     (let s = trimStart command;
          w = takeWhile isWhiteSpace (drop 2 s);
          r = dropWhile isWhiteSpace (drop 2 s)
      in startsWith s (js ''cd'') \<and> w \<noteq> []
         \<and> (if r \<noteq> [] then \<not> list_ex isLineTerminator (trimEnd r)
             else list_ex (\<lambda>c. \<not> isLineTerminator c) (tl w)))"

definition wrappedCommand :: "jsstring \<Rightarrow> jsstring" where
  "wrappedCommand command = (if cdMatch command then command @ js '' && pwd'' else command)"

text \<open>
  The \<open>close\<close> handler. \<open>split\<close> never returns the empty list, so \<open>lines[lines.length - 1]\<close>
  is \<open>last lines\<close>. The new working directory in the result is also the one written to the
  session and to the store.
\<close>

definition onClose ::
  "ExecuteOptions \<Rightarrow> (jsstring \<Rightarrow> bool) \<Rightarrow> jsstring \<Rightarrow> int option \<Rightarrow> nat \<Rightarrow> buffers \<Rightarrow> ExecutionResult" where
  "onClose options existsSync command code dur b =
     (let out0 = stdout b @ (if stderr b \<noteq> [] then NL # stderr b else []);
          trunc = (length out0 > maxOutput options);
          out1 = slice_last (maxOutput options) out0;
          lines = split NL (trim out1);
          lastLine = trim (last lines)
      in if cdMatch command \<and> code = Some 0 \<and> lastLine \<noteq> [] \<and> existsSync lastLine
         then \<lparr> output = join NL (butlast lines), exitCode = 0, duration = dur,
                truncated = trunc, newCwd = Some lastLine \<rparr>
         else \<lparr> output = out1, exitCode = (case code of None \<Rightarrow> 1 | Some c \<Rightarrow> c), duration = dur,
                truncated = trunc, newCwd = None \<rparr>)"

text \<open>The \<open>error\<close> handler and the timeout; \<open>Math.round(duration / 1000)\<close> is \<open>(dur + 500) div 1000\<close>.\<close>

definition onError :: "jsstring \<Rightarrow> nat \<Rightarrow> ExecutionResult" where
  "onError message dur =
     \<lparr> output = js ''Error: '' @ message, exitCode = 1, duration = dur, truncated = False,
       newCwd = None \<rparr>"

definition onTimeout :: "ExecuteOptions \<Rightarrow> nat \<Rightarrow> buffers \<Rightarrow> ExecutionResult" where
  "onTimeout options dur b =
     \<lparr> output = slice_last (maxOutput options) (stdout b)
                @ [NL, NL] @ js ''[Command timed out after ''
                @ numberToString (int ((dur + 500) div 1000)) @ js ''s]'',
       exitCode = 124, duration = dur, truncated = True, newCwd = None \<rparr>"

text \<open>The result \<open>runCommand\<close> resolves with.\<close>

definition runCommandResult ::
  "ExecuteOptions \<Rightarrow> (jsstring \<Rightarrow> bool) \<Rightarrow> jsstring \<Rightarrow> data list \<Rightarrow> ending \<Rightarrow> nat \<Rightarrow> ExecutionResult" where
  "runCommandResult options existsSync command ds e dur =
     (case e of
        Close code \<Rightarrow> onClose options existsSync command code dur (collect options ds)
      | SpawnError message \<Rightarrow> onError message dur
      | TimedOut \<Rightarrow> onTimeout options dur (collect options ds))"

text \<open>A file system in which \<open>/tmp\<close> is the one path that exists.\<close>

definition onlyTmp :: "jsstring \<Rightarrow> bool" where
  "onlyTmp p = (p = js ''/tmp'')"

section \<open>The command executor: running processes\<close>

text \<open>
  The executor keeps the map \<open>runningProcesses\<close> from session keys to child processes. The
  model numbers the child processes in the order they are spawned and keeps, for each, what
  the handlers of its call of \<open>runCommand\<close> hold: the session key captured by the closure and
  the flag \<open>resolved\<close>; and what happened to it: the signals it was sent and whether it has
  exited. \<open>killTimers\<close> are the pending \<open>setTimeout(() => proc.kill('SIGKILL'), 1000)\<close> of
  \<open>abort\<close>, and \<open>running\<close> is the flag \<open>isRunning\<close> of the session with that key.
  Node's event loop runs one handler at a time, so a run of the program is a sequence of
  events.
\<close>

datatype signal = SIGTERM | SIGKILL

record process =
  procKey :: jsstring
  resolved :: bool
  exited :: bool
  signals :: "signal list"

record executor =
  runningProcesses :: "jsstring \<rightharpoonup> nat"
  processes :: "process list"
  killTimers :: "nat list"
  running :: "jsstring \<Rightarrow> bool"

definition newExecutor :: executor where
  "newExecutor = \<lparr> runningProcesses = Map.empty, processes = [], killTimers = [],
                   running = (\<lambda>k. False) \<rparr>"

text \<open>\<open>proc.kill(sig)\<close>: a process that has exited receives nothing.\<close>

definition kill :: "nat \<Rightarrow> signal \<Rightarrow> executor \<Rightarrow> executor" where
  "kill pid sig ex =
     (if pid < length (processes ex) \<and> \<not> exited (processes ex ! pid)
      then ex \<lparr> processes := (processes ex)
                  [pid := (processes ex ! pid) \<lparr> signals := signals (processes ex ! pid) @ [sig] \<rparr>] \<rparr>
      else ex)"

definition abort :: "jsstring \<Rightarrow> executor \<Rightarrow> bool \<times> executor" where
  "abort key ex =
     (case runningProcesses ex key of
        Some pid \<Rightarrow>
          (True, (kill pid SIGTERM ex)
                   \<lparr> runningProcesses := (runningProcesses ex)(key := None),
                     killTimers := killTimers ex @ [pid],
                     running := (running ex)(key := False) \<rparr>)
      | None \<Rightarrow> (False, ex))"

text \<open>
  The part of \<open>runCommand\<close> that runs before it returns its promise: abort what the map holds
  for the key, spawn, register the new process, set the flag.
\<close>

definition runCommand :: "jsstring \<Rightarrow> executor \<Rightarrow> executor" where
  "runCommand key ex =
     (let ex1 = snd (abort key ex);
          pid = length (processes ex1)
      in ex1 \<lparr> processes := processes ex1
                  @ [\<lparr> procKey = key, resolved = False, exited = False, signals = [] \<rparr>],
               runningProcesses := (runningProcesses ex1)(key \<mapsto> pid),
               running := (running ex1)(key := True) \<rparr>)"

text \<open>
  The handlers of the process \<open>pid\<close>. Each of \<open>close\<close>, \<open>error\<close> and the timeout returns at
  once when \<open>resolved\<close> is set; otherwise it sets it, deletes the entry of its session key
  from the map and clears the session's flag.
\<close>

definition settle :: "nat \<Rightarrow> executor \<Rightarrow> executor" where
  "settle pid ex =
     (let p = processes ex ! pid in
      if resolved p then ex
      else ex \<lparr> processes := (processes ex)[pid := p \<lparr> resolved := True \<rparr>],
                runningProcesses := (runningProcesses ex)(procKey p := None),
                running := (running ex)(procKey p := False) \<rparr>)"

definition processClosed :: "nat \<Rightarrow> executor \<Rightarrow> executor" where
  "processClosed pid ex =
     (if pid < length (processes ex)
      then settle pid (ex \<lparr> processes := (processes ex)[pid := (processes ex ! pid) \<lparr> exited := True \<rparr>] \<rparr>)
      else ex)"

definition timeoutFired :: "nat \<Rightarrow> executor \<Rightarrow> executor" where
  "timeoutFired pid ex =
     (if pid < length (processes ex) \<and> \<not> resolved (processes ex ! pid)
      then settle pid (kill pid SIGKILL ex)
      else ex)"

definition killTimerFired :: "nat \<Rightarrow> executor \<Rightarrow> executor" where
  "killTimerFired pid ex = (kill pid SIGKILL ex) \<lparr> killTimers := remove1 pid (killTimers ex) \<rparr>"

datatype event =
  RunCommand jsstring | Abort jsstring | ProcessClosed nat | TimeoutFired nat | KillTimerFired nat

fun step :: "executor \<Rightarrow> event \<Rightarrow> executor" where
  "step ex (RunCommand key) = runCommand key ex"
| "step ex (Abort key) = snd (abort key ex)"
| "step ex (ProcessClosed pid) = processClosed pid ex"
| "step ex (TimeoutFired pid) = timeoutFired pid ex"
| "step ex (KillTimerFired pid) = killTimerFired pid ex"

definition runEvents :: "event list \<Rightarrow> executor" where
  "runEvents evs = foldl step newExecutor evs"

text \<open>
  The processes in flight for a key: spawned for that key, not exited, and sent no signal.
\<close>

definition inFlight :: "jsstring \<Rightarrow> executor \<Rightarrow> nat list" where
  "inFlight key ex =
     filter (\<lambda>pid. procKey (processes ex ! pid) = key \<and> \<not> exited (processes ex ! pid)
                    \<and> signals (processes ex ! pid) = [])
       [0..<length (processes ex)]"

section \<open>Properties of the bridge\<close>

lemmas char_defs = NL_def BACKSLASH_def DQUOTE_def DOLLAR_def BACKTICK_def BANG_def PERCENT_def

lemma replaceAll_Nil: "replaceAll c r [] = []"
  by (simp add: replaceAll_def)

lemma replaceAll_Cons: "replaceAll c r (x # s) = (if x = c then r else [x]) @ replaceAll c r s"
  by (simp add: replaceAll_def)

lemma replaceAll_append: "replaceAll c r (s @ t) = replaceAll c r s @ replaceAll c r t"
  by (simp add: replaceAll_def)

lemma escaped_Nil: "escaped [] = []"
  by (simp add: escaped_def replaceAll_Nil)

lemma escaped_Cons: "escaped (c # s) = escapeChar c @ escaped s"
  by (simp add: escaped_def escapeChar_def char_defs replaceAll_Cons replaceAll_Nil)

lemma escaped_concat: "escaped t = concat (map escapeChar t)"
  by (induction t) (simp_all add: escaped_Nil escaped_Cons)

lemma quotedLiteral_escapeChar: "quotedLiteral (escapeChar c @ s) = quotedLiteral s"
  by (cases s) (simp_all add: escapeChar_def char_defs)

lemma quotedLiteral_escaped: "quotedLiteral (escaped t)"
  by (induction t) (simp_all add: escaped_Nil escaped_Cons quotedLiteral_escapeChar)


text \<open>
  What the chain of replacements does, for every text \<open>t\<close>: the escaped text is the
  concatenation of the escapes of the characters of \<open>t\<close> (backslash, double quote, dollar
  sign, backtick and exclamation mark get a backslash in front, a percent sign is doubled, a
  newline becomes backslash-n, nothing else changes). The escaped text holds no double
  quote, dollar sign or backtick outside a backslash pair, so the double-quoted word of the
  command line ends at the closing quote the program writes and nowhere before. That
  escaped text, between double quotes, is what the one \<open>tmux send-keys\<close> command line
  handed to the shell carries, and nothing is handed over when the session name is rejected.
\<close>

lemma sendToTmux_command:
  "escaped t = concat (map escapeChar t)
   \<and> quotedLiteral (escaped t)
   \<and> snd (sendToTmux env sh t sessionName tr) =
       (case sessionOrDefault env sessionName of
          Inl e \<Rightarrow> tr
        | Inr session \<Rightarrow>
            tr @ [js ''tmux send-keys -t '' @ session @ js '' '' @ [DQUOTE]
                  @ concat (map escapeChar t) @ [DQUOTE]])"
  by (simp add: escaped_concat [symmetric] quotedLiteral_escaped sendToTmux_def execPromise_def
      split: sum.split option.split)

text \<open>
  Claim C1 (code defect). For the text \<open>hi!\<close> the command line handed to the shell is
  \<open>tmux send-keys -t termo-main "hi\!"\<close>. Inside double quotes a POSIX shell, which is what
  \<open>exec\<close> runs the command line in, takes a backslash as an escape only before a dollar sign,
  a backtick, a double quote, a backslash or a newline; before an exclamation mark the
  backslash stays. tmux is handed the four characters \<open>hi\!\<close> and types them: the text does
  not arrive as the keystrokes \<open>hi!\<close>. In the same way the two characters backslash and \<open>n\<close>
  stand in for a newline and two percent signs for one.
\<close>

theorem exclamation_mark_gains_backslash:
  "escaped (js ''hi!'') = js ''hi'' @ [BACKSLASH, BANG]
   \<and> snd (sendToTmux None noShell (js ''hi!'') None []) =
       [js ''tmux send-keys -t termo-main '' @ [DQUOTE] @ js ''hi'' @ [BACKSLASH, BANG] @ [DQUOTE]]
   \<and> escaped (js ''100%'' @ [NL]) = js ''100%%'' @ [BACKSLASH, 110]"
  by (simp add: escaped_def replaceAll_def sendToTmux_def sessionOrDefault_def DEFAULT_SESSION_def
      execPromise_def noShell_def js_def char_defs)


subsection \<open>Session names\<close>

lemma isValidSessionName_pattern: "isValidSessionName n = matchesNamePattern n"
  by (cases n) (auto simp add: isValidSessionName_def matchesNamePattern_def)

lemma sessionOrDefault_invalid:
  "n \<noteq> [] \<Longrightarrow> \<not> matchesNamePattern n \<Longrightarrow> sessionOrDefault env (Some n) = Inl InvalidSessionName"
  by (simp add: sessionOrDefault_def sanitizeSessionName_def isValidSessionName_pattern)

lemma sessionOrDefault_valid:
  "matchesNamePattern n \<Longrightarrow> sessionOrDefault env (Some n) = Inr n"
  by (auto simp add: sessionOrDefault_def sanitizeSessionName_def isValidSessionName_pattern
      matchesNamePattern_def)

lemma sessionOrDefault_falsy:
  "sessionOrDefault env None = Inr (DEFAULT_SESSION env)"
  "sessionOrDefault env (Some []) = Inr (DEFAULT_SESSION env)"
  by (simp_all add: sessionOrDefault_def)

lemma sanitizeSessionName_pattern:
  "sanitizeSessionName n = (if matchesNamePattern n then Inr n else Inl InvalidSessionName)"
  by (simp add: sanitizeSessionName_def isValidSessionName_pattern)

lemmas bridge_defs = isTmuxSessionActive_def createTmuxSession_def sendToTmux_def
  sendEnterToTmux_def sendCtrlC_def clearScrollback_def capturePane_def killTmuxSession_def

lemma bridge_rejects:
  assumes "n \<noteq> []" and "\<not> matchesNamePattern n"
  shows "isTmuxSessionActive env sh (Some n) tr = (Inl InvalidSessionName, tr)"
    and "createTmuxSession env sh (Some n) tr = (Inl InvalidSessionName, tr)"
    and "sendToTmux env sh t (Some n) tr = (Inl InvalidSessionName, tr)"
    and "sendEnterToTmux env sh (Some n) tr = (Inl InvalidSessionName, tr)"
    and "sendCtrlC env sh (Some n) tr = (Inl InvalidSessionName, tr)"
    and "clearScrollback env sh (Some n) tr = (Inl InvalidSessionName, tr)"
    and "capturePane env sh (Some n) tr = (Inl InvalidSessionName, tr)"
    and "killTmuxSession env sh (Some n) tr = (Inl InvalidSessionName, tr)"
  using assms by (simp_all add: bridge_defs sessionOrDefault_invalid)

lemma rename_rejects:
  assumes "\<not> matchesNamePattern a \<or> \<not> matchesNamePattern b"
  shows "renameTmuxSession sh a b tr = (Inl InvalidSessionName, tr)"
  using assms by (auto simp add: renameTmuxSession_def sanitizeSessionName_pattern)

lemma bridge_accepts:
  assumes "matchesNamePattern m"
  shows "snd (isTmuxSessionActive env sh (Some m) tr) =
           tr @ [js ''tmux has-session -t '' @ m @ js '' 2>/dev/null'']"
    and "snd (createTmuxSession env sh (Some m) tr) =
           tr @ [js ''tmux new-session -d -s '' @ m @ js '' -x 120 -y 30'']"
    and "snd (sendToTmux env sh t (Some m) tr) =
           tr @ [js ''tmux send-keys -t '' @ m @ js '' '' @ [DQUOTE] @ escaped t @ [DQUOTE]]"
    and "snd (sendEnterToTmux env sh (Some m) tr) = tr @ [js ''tmux send-keys -t '' @ m @ js '' Enter'']"
    and "snd (sendCtrlC env sh (Some m) tr) = tr @ [js ''tmux send-keys -t '' @ m @ js '' C-c'']"
    and "snd (clearScrollback env sh (Some m) tr) = tr @ [js ''tmux clear-history -t '' @ m]"
    and "snd (capturePane env sh (Some m) tr) =
           tr @ [js ''tmux capture-pane -t '' @ m @ js '' -p -S -500'']"
    and "snd (killTmuxSession env sh (Some m) tr) = tr @ [js ''tmux kill-session -t '' @ m]"
  using assms
  by (simp_all add: bridge_defs sessionOrDefault_valid execPromise_def split: option.split)

lemma rename_accepts:
  assumes "matchesNamePattern a" and "matchesNamePattern b"
  shows "snd (renameTmuxSession sh a b tr) = tr @ [js ''tmux rename-session -t '' @ a @ js '' '' @ b]"
  using assms
  by (simp add: renameTmuxSession_def sanitizeSessionName_pattern execPromise_def
      split: option.split)

lemma bridge_default:
  assumes "sessionName = None \<or> sessionName = Some []"
  shows "snd (isTmuxSessionActive env sh sessionName tr) =
           tr @ [js ''tmux has-session -t '' @ DEFAULT_SESSION env @ js '' 2>/dev/null'']"
    and "snd (createTmuxSession env sh sessionName tr) =
           tr @ [js ''tmux new-session -d -s '' @ DEFAULT_SESSION env @ js '' -x 120 -y 30'']"
    and "snd (sendToTmux env sh t sessionName tr) =
           tr @ [js ''tmux send-keys -t '' @ DEFAULT_SESSION env @ js '' '' @ [DQUOTE] @ escaped t
                 @ [DQUOTE]]"
    and "snd (sendEnterToTmux env sh sessionName tr) =
           tr @ [js ''tmux send-keys -t '' @ DEFAULT_SESSION env @ js '' Enter'']"
    and "snd (sendCtrlC env sh sessionName tr) =
           tr @ [js ''tmux send-keys -t '' @ DEFAULT_SESSION env @ js '' C-c'']"
    and "snd (clearScrollback env sh sessionName tr) =
           tr @ [js ''tmux clear-history -t '' @ DEFAULT_SESSION env]"
    and "snd (capturePane env sh sessionName tr) =
           tr @ [js ''tmux capture-pane -t '' @ DEFAULT_SESSION env @ js '' -p -S -500'']"
    and "snd (killTmuxSession env sh sessionName tr) =
           tr @ [js ''tmux kill-session -t '' @ DEFAULT_SESSION env]"
  using assms
  by (auto simp add: bridge_defs sessionOrDefault_falsy execPromise_def split: option.split)


text \<open>
  The default session name of the variant with per-user sessions is used as the environment
  gives it: no operation checks it. The single-session variant checks its name when it is
  loaded.
\<close>

lemma default_session_not_checked:
  "snd (sendEnterToTmux (Some (js ''x; reboot'')) noShell None []) =
     [js ''tmux send-keys -t x; reboot Enter'']
   \<and> TMUX_SESSION (Some (js ''x; reboot'')) = Inl InvalidSessionName
   \<and> TMUX_SESSION None = Inr (js ''termo-main'')"
  by (simp add: sendEnterToTmux_def sessionOrDefault_def DEFAULT_SESSION_def execPromise_def
      noShell_def TMUX_SESSION_def Let_def nameChar_def js_def)

text \<open>
  Claim C2, as stated, fails at the empty name: it does not match the pattern, yet no
  operation with an optional session name rejects it. The empty string is falsy, so the
  operation falls back to the default session and issues its command.
\<close>

theorem bridge_empty_name_counterexample:
  "\<not> matchesNamePattern []
   \<and> sendEnterToTmux None noShell (Some []) [] =
       (Inl ExecFailed, [js ''tmux send-keys -t termo-main Enter''])"
  by (simp add: matchesNamePattern_def sendEnterToTmux_def sessionOrDefault_def
      DEFAULT_SESSION_def execPromise_def noShell_def js_def)

text \<open>
  Claim C2, amended. Every bridge operation that is given a non-empty session name checks it
  against \<open>^[A-Za-z0-9_-]{1,50}$\<close> before it builds a command: a non-empty name \<open>n\<close> that
  does not match is rejected and the trace of external calls is unchanged; a matching name
  \<open>m\<close> goes unchanged into the single command the operation issues. \<open>renameTmuxSession\<close>
  checks both of its names and also rejects the empty one. The other eight operations treat
  the empty name as no name and address the default session.
\<close>

theorem bridge_validates_session_names:
  assumes "n \<noteq> []" and "\<not> matchesNamePattern n"
    and "matchesNamePattern m" and "matchesNamePattern m'"
  shows "(isTmuxSessionActive env sh (Some n) tr = (Inl InvalidSessionName, tr)
          \<and> createTmuxSession env sh (Some n) tr = (Inl InvalidSessionName, tr)
          \<and> sendToTmux env sh t (Some n) tr = (Inl InvalidSessionName, tr)
          \<and> sendEnterToTmux env sh (Some n) tr = (Inl InvalidSessionName, tr)
          \<and> sendCtrlC env sh (Some n) tr = (Inl InvalidSessionName, tr)
          \<and> clearScrollback env sh (Some n) tr = (Inl InvalidSessionName, tr)
          \<and> capturePane env sh (Some n) tr = (Inl InvalidSessionName, tr)
          \<and> killTmuxSession env sh (Some n) tr = (Inl InvalidSessionName, tr)
          \<and> renameTmuxSession sh n m tr = (Inl InvalidSessionName, tr)
          \<and> renameTmuxSession sh m n tr = (Inl InvalidSessionName, tr)
          \<and> renameTmuxSession sh [] m tr = (Inl InvalidSessionName, tr)
          \<and> renameTmuxSession sh m [] tr = (Inl InvalidSessionName, tr))
       \<and> (snd (isTmuxSessionActive env sh (Some m) tr) =
             tr @ [js ''tmux has-session -t '' @ m @ js '' 2>/dev/null'']
          \<and> snd (createTmuxSession env sh (Some m) tr) =
             tr @ [js ''tmux new-session -d -s '' @ m @ js '' -x 120 -y 30'']
          \<and> snd (sendToTmux env sh t (Some m) tr) =
             tr @ [js ''tmux send-keys -t '' @ m @ js '' '' @ [DQUOTE] @ escaped t @ [DQUOTE]]
          \<and> snd (sendEnterToTmux env sh (Some m) tr) =
             tr @ [js ''tmux send-keys -t '' @ m @ js '' Enter'']
          \<and> snd (sendCtrlC env sh (Some m) tr) = tr @ [js ''tmux send-keys -t '' @ m @ js '' C-c'']
          \<and> snd (clearScrollback env sh (Some m) tr) = tr @ [js ''tmux clear-history -t '' @ m]
          \<and> snd (capturePane env sh (Some m) tr) =
             tr @ [js ''tmux capture-pane -t '' @ m @ js '' -p -S -500'']
          \<and> snd (killTmuxSession env sh (Some m) tr) = tr @ [js ''tmux kill-session -t '' @ m]
          \<and> snd (renameTmuxSession sh m m' tr) =
             tr @ [js ''tmux rename-session -t '' @ m @ js '' '' @ m'])
       \<and> (snd (isTmuxSessionActive env sh (Some []) tr) =
             tr @ [js ''tmux has-session -t '' @ DEFAULT_SESSION env @ js '' 2>/dev/null'']
          \<and> snd (createTmuxSession env sh (Some []) tr) =
             tr @ [js ''tmux new-session -d -s '' @ DEFAULT_SESSION env @ js '' -x 120 -y 30'']
          \<and> snd (sendToTmux env sh t (Some []) tr) =
             tr @ [js ''tmux send-keys -t '' @ DEFAULT_SESSION env @ js '' '' @ [DQUOTE] @ escaped t
                   @ [DQUOTE]]
          \<and> snd (sendEnterToTmux env sh (Some []) tr) =
             tr @ [js ''tmux send-keys -t '' @ DEFAULT_SESSION env @ js '' Enter'']
          \<and> snd (sendCtrlC env sh (Some []) tr) =
             tr @ [js ''tmux send-keys -t '' @ DEFAULT_SESSION env @ js '' C-c'']
          \<and> snd (clearScrollback env sh (Some []) tr) =
             tr @ [js ''tmux clear-history -t '' @ DEFAULT_SESSION env]
          \<and> snd (capturePane env sh (Some []) tr) =
             tr @ [js ''tmux capture-pane -t '' @ DEFAULT_SESSION env @ js '' -p -S -500'']
          \<and> snd (killTmuxSession env sh (Some []) tr) =
             tr @ [js ''tmux kill-session -t '' @ DEFAULT_SESSION env])"
proof -
  have empty: "\<not> matchesNamePattern []"
    by (simp add: matchesNamePattern_def)
  have rejected: "renameTmuxSession sh n m tr = (Inl InvalidSessionName, tr)"
    "renameTmuxSession sh m n tr = (Inl InvalidSessionName, tr)"
    "renameTmuxSession sh [] m tr = (Inl InvalidSessionName, tr)"
    "renameTmuxSession sh m [] tr = (Inl InvalidSessionName, tr)"
    using assms(2) empty by (simp_all add: rename_rejects)
  have falsy: "Some ([]::jsstring) = None \<or> Some ([]::jsstring) = Some []"
    by simp
  show ?thesis
    by (intro conjI bridge_rejects [OF assms(1,2)] rejected bridge_accepts [OF assms(3)]
        rename_accepts [OF assms(3,4)] bridge_default [OF falsy])
qed

theorem bridge_validates_session_names_witness:
  "js ''a b'' \<noteq> [] \<and> \<not> matchesNamePattern (js ''a b'')
   \<and> matchesNamePattern (js ''main'') \<and> matchesNamePattern (js ''work'')
   \<and> capturePane None noShell (Some (js ''a b'')) [] = (Inl InvalidSessionName, [])
   \<and> snd (capturePane None noShell (Some (js ''main'')) []) =
       [js ''tmux capture-pane -t main -p -S -500'']
   \<and> snd (renameTmuxSession noShell (js ''main'') (js ''work'') []) =
       [js ''tmux rename-session -t main work'']"
proof -
  have h1: "js ''a b'' \<noteq> []" and h2: "\<not> matchesNamePattern (js ''a b'')"
    and h3: "matchesNamePattern (js ''main'')" and h4: "matchesNamePattern (js ''work'')"
    by (simp_all add: js_def matchesNamePattern_def nameChar_def)
  from bridge_validates_session_names [OF h1 h2 h3 h4, of None noShell "[]" "[]"]
  show ?thesis
    using h1 h2 h3 h4 by (simp add: js_def)
qed

section \<open>Properties of the classifier\<close>

lemma startsWith_iff: "startsWith s p \<longleftrightarrow> (\<exists>v. s = p @ v)"
  by (induction s p rule: startsWith.induct) auto

lemma includesStr_iff: "includesStr s p \<longleftrightarrow> (\<exists>u v. s = u @ p @ v)"
proof (induction s)
  case Nil
  then show ?case by auto
next
  case (Cons x xs)
  show ?case
  proof
    assume "includesStr (x # xs) p"
    then consider "startsWith (x # xs) p" | "includesStr xs p" by auto
    then show "\<exists>u v. x # xs = u @ p @ v"
    proof cases
      case 1
      then obtain v where "x # xs = p @ v" by (auto simp add: startsWith_iff)
      then have "x # xs = [] @ p @ v" by simp
      then show ?thesis by blast
    next
      case 2
      then obtain u v where "xs = u @ p @ v" using Cons.IH by blast
      then have "x # xs = (x # u) @ p @ v" by simp
      then show ?thesis by blast
    qed
  next
    assume "\<exists>u v. x # xs = u @ p @ v"
    then obtain u v where uv: "x # xs = u @ p @ v" by blast
    show "includesStr (x # xs) p"
    proof (cases u)
      case Nil
      then have "startsWith (x # xs) p" using uv by (auto simp add: startsWith_iff)
      then show ?thesis by simp
    next
      case (Cons y ys)
      then have "xs = ys @ p @ v" using uv by simp
      then have "includesStr xs p" using Cons.IH by blast
      then show ?thesis by simp
    qed
  qed
qed

lemma includesStr_suffix: "includesStr s (a @ p) \<Longrightarrow> includesStr s p"
proof -
  assume "includesStr s (a @ p)"
  then obtain u v where "s = u @ (a @ p) @ v" by (auto simp add: includesStr_iff)
  then have "s = (u @ a) @ p @ v" by simp
  then show ?thesis unfolding includesStr_iff by blast
qed

lemma status_precedence:
  "status (parseClaudeStatus g lc s) =
     (if isThinking (parseClaudeStatus g lc s) then js ''thinking''
      else if isReady (parseClaudeStatus g lc s) then js ''ready''
      else if isDone (parseClaudeStatus g lc s) then js ''done''
      else js ''unknown'')"
  by (simp add: parseClaudeStatus_def Let_def)

text \<open>
  Claim C3. For every screen whose last ten lines hold a spinner glyph, that is a member of
  the character class the classifier tests, the classifier answers \<open>isThinking = true\<close> and
  \<open>status = 'thinking'\<close>, whatever else the screen shows (the glyph literals \<open>g\<close>, the case
  mapping \<open>lc\<close> and the rest of the screen are arbitrary). For every screen \<open>s\<close> the status
  is the first of thinking, ready, done that holds, and \<open>unknown\<close> when none does.
\<close>

theorem spinner_classifies_thinking:
  assumes "testClass (spinnerClass g) (lastTenLines screen)"
  shows "isThinking (parseClaudeStatus g lc screen)
         \<and> status (parseClaudeStatus g lc screen) = js ''thinking''
         \<and> status (parseClaudeStatus g lc s) =
             (if isThinking (parseClaudeStatus g lc s) then js ''thinking''
              else if isReady (parseClaudeStatus g lc s) then js ''ready''
              else if isDone (parseClaudeStatus g lc s) then js ''done''
              else js ''unknown'')"
proof -
  have "isThinking (parseClaudeStatus g lc screen)"
    using assms by (simp add: parseClaudeStatus_def Let_def)
  moreover have "status (parseClaudeStatus g lc screen) = js ''thinking''"
    using assms by (simp add: parseClaudeStatus_def Let_def)
  ultimately show ?thesis
    using status_precedence [of g lc s] by blast
qed

theorem spinner_classifies_thinking_witness:
  "testClass (spinnerClass sourceGlyphs)
     (lastTenLines (js ''done '' @ [226, 339, 8220, NL, 8212, NL] @ js ''> ''))
   \<and> isThinking (parseClaudeStatus sourceGlyphs asciiLowerCase
                    (js ''done '' @ [226, 339, 8220, NL, 8212, NL] @ js ''> ''))
   \<and> status (parseClaudeStatus sourceGlyphs asciiLowerCase
                (js ''done '' @ [226, 339, 8220, NL, 8212, NL] @ js ''> ''))
       = js ''thinking''"
proof -
  have h: "testClass (spinnerClass sourceGlyphs)
             (lastTenLines (js ''done '' @ [226, 339, 8220, NL, 8212, NL] @ js ''> ''))"
    by (simp add: testClass_def sourceGlyphs_def lastTenLines_def lastTen_def slice_last_def
        js_def NL_def)
  from spinner_classifies_thinking [where lc = asciiLowerCase and s = "[]", OF h] h
  show ?thesis by blast
qed

text \<open>
  Claim C4, as stated, fails on the screen \<open>thinking\<close>, newline, \<open>></\<close>: its last non-blank
  line is exactly \<open>></\<close>, its window holds no spinner glyph and no interrupt hint, but the
  word "thinking" in the window makes the classifier answer thinking, and so not ready.
\<close>

theorem prompt_with_thinking_text_counterexample:
  "lastNonBlank (lastTen (js ''thinking'' @ [NL] @ js ''>'')) = Some (js ''>'')
   \<and> \<not> testClass (spinnerClass sourceGlyphs) (lastTenLines (js ''thinking'' @ [NL] @ js ''>''))
   \<and> \<not> includesStr (lastTenLines (js ''thinking'' @ [NL] @ js ''>'')) (js ''esc to interrupt'')
   \<and> isThinking (parseClaudeStatus sourceGlyphs asciiLowerCase (js ''thinking'' @ [NL] @ js ''>''))
   \<and> \<not> isReady (parseClaudeStatus sourceGlyphs asciiLowerCase (js ''thinking'' @ [NL] @ js ''>''))"
  by (simp add: parseClaudeStatus_def Let_def lastTenLines_def lastTen_def slice_last_def js_def
      NL_def testClass_def sourceGlyphs_def lastNonBlank_def trim_def trimStart_def trimEnd_def
      isWhiteSpace_def asciiLowerCase_def)

lemma lastNonBlank_in_set: "lastNonBlank ls = Some l \<Longrightarrow> l \<in> set ls"
proof -
  assume a: "lastNonBlank ls = Some l"
  then have ne: "filter (\<lambda>l. trim l \<noteq> []) ls \<noteq> []"
    by (auto simp add: lastNonBlank_def split: list.splits)
  then have "l = last (filter (\<lambda>l. trim l \<noteq> []) ls)"
    using a by (auto simp add: lastNonBlank_def split: list.splits)
  then have "l \<in> set (filter (\<lambda>l. trim l \<noteq> []) ls)"
    using ne last_in_set by blast
  then show ?thesis by simp
qed

lemma isPromptLine_prompt: "isPromptLine (js ''>'')"
  by (simp add: isPromptLine_def Let_def trim_def trimStart_def trimEnd_def isWhiteSpace_def js_def)

text \<open>
  Claim C4, amended. For every screen whose last non-blank line among the last ten is
  exactly \<open>></\<close>, and whose last ten lines hold no spinner glyph (no member of the class the
  classifier tests), no interrupt hint and, once lower-cased, no text "thinking", the
  classifier answers \<open>isReady = true\<close> and \<open>isThinking = false\<close>, and the status is \<open>ready\<close>.
\<close>

theorem bare_prompt_classifies_ready:
  assumes "lastNonBlank (lastTen screen) = Some (js ''>'')"
    and "\<not> testClass (spinnerClass g) (lastTenLines screen)"
    and "\<not> includesStr (lastTenLines screen) (js ''esc to interrupt'')"
    and "\<not> includesStr (lc (lastTenLines screen)) (js ''thinking'')"
  shows "isReady (parseClaudeStatus g lc screen)
         \<and> \<not> isThinking (parseClaudeStatus g lc screen)
         \<and> status (parseClaudeStatus g lc screen) = js ''ready''"
proof -
  have "js ''>'' \<in> set (lastTen screen)"
    using assms(1) by (rule lastNonBlank_in_set)
  then have prompt: "list_ex isPromptLine (lastTen screen)"
    using isPromptLine_prompt by (auto simp add: list_ex_iff)
  have "\<not> includesStr (lc (lastTenLines screen)) ((star g @ [32]) @ js ''thinking'')"
    using assms(4) includesStr_suffix by blast
  then have starred: "\<not> includesStr (lc (lastTenLines screen)) (star g @ js '' thinking'')"
    by (simp add: js_def)
  show ?thesis
    using assms(2,3,4) prompt starred by (simp add: parseClaudeStatus_def Let_def)
qed

theorem bare_prompt_classifies_ready_witness:
  "lastNonBlank (lastTen (js ''All set.'' @ [NL] @ js ''>'' @ [NL])) = Some (js ''>'')
   \<and> \<not> testClass (spinnerClass sourceGlyphs) (lastTenLines (js ''All set.'' @ [NL] @ js ''>'' @ [NL]))
   \<and> \<not> includesStr (lastTenLines (js ''All set.'' @ [NL] @ js ''>'' @ [NL])) (js ''esc to interrupt'')
   \<and> \<not> includesStr (asciiLowerCase (lastTenLines (js ''All set.'' @ [NL] @ js ''>'' @ [NL])))
          (js ''thinking'')
   \<and> isReady (parseClaudeStatus sourceGlyphs asciiLowerCase (js ''All set.'' @ [NL] @ js ''>'' @ [NL]))
   \<and> \<not> isThinking (parseClaudeStatus sourceGlyphs asciiLowerCase
                        (js ''All set.'' @ [NL] @ js ''>'' @ [NL]))"
proof -
  have h1: "lastNonBlank (lastTen (js ''All set.'' @ [NL] @ js ''>'' @ [NL])) = Some (js ''>'')"
    by (simp add: lastTen_def slice_last_def js_def NL_def lastNonBlank_def trim_def trimStart_def
        trimEnd_def isWhiteSpace_def)
  have h2: "\<not> testClass (spinnerClass sourceGlyphs)
                (lastTenLines (js ''All set.'' @ [NL] @ js ''>'' @ [NL]))"
    by (simp add: testClass_def sourceGlyphs_def lastTenLines_def lastTen_def slice_last_def
        js_def NL_def)
  have h3: "\<not> includesStr (lastTenLines (js ''All set.'' @ [NL] @ js ''>'' @ [NL]))
              (js ''esc to interrupt'')"
    by (simp add: lastTenLines_def lastTen_def slice_last_def js_def NL_def)
  have h4: "\<not> includesStr (asciiLowerCase (lastTenLines (js ''All set.'' @ [NL] @ js ''>'' @ [NL])))
              (js ''thinking'')"
    by (simp add: lastTenLines_def lastTen_def slice_last_def js_def NL_def asciiLowerCase_def)
  from bare_prompt_classifies_ready
         [where lc = asciiLowerCase and g = sourceGlyphs, OF h1 h2 h3 h4] h1 h2 h3 h4
  show ?thesis by blast
qed

text \<open>
  Claim C5, as stated, fails on the screen \<open>undo done\<close>: the word "done" is there and that
  occurrence shares no character with "undo", yet the classifier answers \<open>isDone = false\<close>,
  because an "undo" anywhere in the window turns the "done" test off.
\<close>

theorem done_beside_undo_counterexample:
  "doneAsClaimed sourceGlyphs (asciiLowerCase (lastTenLines (js ''undo done'')))
   \<and> \<not> isDone (parseClaudeStatus sourceGlyphs asciiLowerCase (js ''undo done''))"
  by (simp add: doneAsClaimed_def occursAt_def parseClaudeStatus_def Let_def lastTenLines_def
      lastTen_def slice_last_def js_def NL_def sourceGlyphs_def asciiLowerCase_def upt_rec)

text \<open>
  Claim C5, amended. For every screen, with \<open>w\<close> its last ten lines lower-cased, the
  classifier answers \<open>isDone = true\<close> exactly when \<open>w\<close> holds the check mark, or \<open>w\<close> holds the
  text "done" and holds the text "undo" nowhere (whatever the literal \<open>checkMark g\<close> of the
  check mark and the case mapping \<open>lc\<close>).
\<close>

theorem done_exactly_when:
  "isDone (parseClaudeStatus g lc screen) \<longleftrightarrow>
     ((\<exists>u v. lc (lastTenLines screen) = u @ checkMark g @ v)
      \<or> ((\<exists>u v. lc (lastTenLines screen) = u @ js ''done'' @ v)
          \<and> (\<nexists>u v. lc (lastTenLines screen) = u @ js ''undo'' @ v)))"
  by (simp add: parseClaudeStatus_def Let_def includesStr_iff)

section \<open>Properties of the chunking\<close>

lemma split_nonempty: "split c s \<noteq> []"
  by (induction s) (auto split: list.splits)

lemma split_no_sep: "c \<notin> set s \<Longrightarrow> split c s = [s]"
  by (induction s) auto

lemma split_lines_no_sep: "l \<in> set (split c s) \<Longrightarrow> c \<notin> set l"
proof (induction s arbitrary: l)
  case Nil
  then show ?case by simp
next
  case (Cons x xs)
  show ?case
  proof (cases "x = c")
    case True
    then show ?thesis using Cons by auto
  next
    case False
    obtain h t where ht: "split c xs = h # t"
      using split_nonempty [of c xs] by (cases "split c xs") auto
    then have "l = x # h \<or> l \<in> set t" using Cons.prems False by simp
    moreover have "c \<notin> set h" using Cons.IH ht by simp
    moreover have "l \<in> set t \<Longrightarrow> c \<notin> set l" using Cons.IH ht by simp
    ultimately show ?thesis using False by auto
  qed
qed

lemma split_append_sep: "split c (a @ c # b) = split c a @ split c b"
proof (induction a)
  case Nil
  then show ?case by simp
next
  case (Cons x xs)
  obtain h t where ht: "split c xs = h # t"
    using split_nonempty [of c xs] by (cases "split c xs") auto
  then show ?case using Cons by simp
qed

lemma join_split_append: "ys \<noteq> [] \<Longrightarrow> join c (split c x @ ys) = x @ c # join c ys"
proof (induction x)
  case Nil
  then show ?case by (cases ys) simp_all
next
  case (Cons a xs)
  obtain h t where ht: "split c xs = h # t"
    using split_nonempty [of c xs] by (cases "split c xs") auto
  obtain y ys' where ys: "ys = y # ys'" using Cons.prems by (cases ys) auto
  show ?case
  proof (cases "a = c")
    case True
    then show ?thesis using Cons ht by simp
  next
    case False
    have "join c ((a # h) # (t @ ys)) = (a # h) @ c # join c (t @ ys)"
      using ys by (cases t) simp_all
    moreover have "join c ((h # t) @ ys) = h @ c # join c (t @ ys)"
      using ys by (cases t) simp_all
    ultimately show ?thesis using Cons ht False by simp
  qed
qed

lemma join_split: "join c (split c x) = x"
proof (induction x)
  case Nil
  then show ?case by simp
next
  case (Cons a xs)
  obtain h t where ht: "split c xs = h # t"
    using split_nonempty [of c xs] by (cases "split c xs") auto
  show ?case
  proof (cases "a = c")
    case True
    then show ?thesis using Cons ht by simp
  next
    case False
    have "join c ((a # h) # t) = a # join c (h # t)"
      by (cases t) simp_all
    then show ?thesis using Cons ht False by simp
  qed
qed

lemma join_concat_split: "join c (concat (map (split c) xs)) = join c xs"
proof (induction xs)
  case Nil
  then show ?case by simp
next
  case (Cons x xs)
  show ?case
  proof (cases xs)
    case Nil
    then show ?thesis by (simp add: join_split)
  next
    case (Cons y ys)
    then have ne: "concat (map (split c) xs) \<noteq> []"
      using split_nonempty [of c y] by simp
    have "join c (x # xs) = x @ c # join c xs" using Cons by simp
    then show ?thesis using join_split_append [OF ne, of c x] Cons.IH by simp
  qed
qed

lemma chunkLoop_nonempty_lines:
  "list_all (\<lambda>l. NL \<notin> set l) ls \<Longrightarrow>
   filter (\<lambda>l. l \<noteq> []) (concat (map (split NL) (chunkLoop n ls cur chunks))) =
   filter (\<lambda>l. l \<noteq> []) (concat (map (split NL) chunks)) @ filter (\<lambda>l. l \<noteq> []) (split NL cur)
     @ filter (\<lambda>l. l \<noteq> []) ls"
proof (induction ls arbitrary: cur chunks)
  case Nil
  then show ?case by simp
next
  case (Cons line rest)
  then have line: "split NL line = [line]" and rest: "list_all (\<lambda>l. NL \<notin> set l) rest"
    by (simp_all add: split_no_sep)
  show ?case
    using Cons.IH [OF rest] line by (simp add: split_append_sep)
qed

lemma chunkLoop_bound:
  "list_all P chunks \<Longrightarrow> P cur \<or> cur = [] \<Longrightarrow> list_all P ls \<Longrightarrow> (\<And>c. length c \<le> n \<Longrightarrow> P c) \<Longrightarrow>
   list_all P (chunkLoop n ls cur chunks)"
proof (induction ls arbitrary: cur chunks)
  case Nil
  then show ?case by auto
next
  case (Cons line rest)
  show ?case
  proof (cases "length (cur @ NL # line) > n")
    case True
    have "list_all P (if cur \<noteq> [] then chunks @ [cur] else chunks)"
      using Cons.prems by auto
    moreover have "P line \<or> line = []" using Cons.prems by simp
    ultimately have "list_all P (chunkLoop n rest line (if cur \<noteq> [] then chunks @ [cur] else chunks))"
      using Cons.IH Cons.prems by simp
    then show ?thesis using True by simp
  next
    case False
    have "P (if cur \<noteq> [] then cur @ NL # line else line)"
      using False Cons.prems by auto
    then have "list_all P (chunkLoop n rest (if cur \<noteq> [] then cur @ NL # line else line) chunks)"
      using Cons.IH Cons.prems by simp
    then show ?thesis using False by simp
  qed
qed

lemma chunkLoop_subseq:
  "list_all (\<lambda>l. NL \<notin> set l) ls \<Longrightarrow>
   subseq (concat (map (split NL) (chunkLoop n ls cur chunks)))
     (concat (map (split NL) chunks) @ (if cur = [] then [] else split NL cur) @ ls)"
proof (induction ls arbitrary: cur chunks)
  case Nil
  then show ?case by simp
next
  case (Cons line rest)
  then have line: "split NL line = [line]" and rest: "list_all (\<lambda>l. NL \<notin> set l) rest"
    by (simp_all add: split_no_sep)
  let ?C = "concat (map (split NL) chunks)"
  let ?K = "if cur = [] then [] else split NL cur"
  have drop_line: "subseq ((if line = [] then [] else [line]) @ rest) (line # rest)"
    by (simp add: subseq_Cons')
  show ?case
  proof (cases "length (cur @ NL # line) > n")
    case True
    have "subseq (concat (map (split NL) (chunkLoop n (line # rest) cur chunks)))
            ((?C @ ?K) @ (if line = [] then [] else [line]) @ rest)"
      using Cons.IH [OF rest, of line "if cur \<noteq> [] then chunks @ [cur] else chunks"] True line
      by (simp split: if_splits)
    moreover have "subseq ((?C @ ?K) @ (if line = [] then [] else [line]) @ rest)
                     ((?C @ ?K) @ line # rest)"
      using drop_line by (rule list_emb_append_mono [OF subseq_order.order_refl])
    ultimately show ?thesis
      using subseq_order.order_trans by fastforce
  next
    case False
    show ?thesis
    proof (cases "cur = []")
      case True
      have "subseq (concat (map (split NL) (chunkLoop n (line # rest) cur chunks)))
              (?C @ (if line = [] then [] else [line]) @ rest)"
        using Cons.IH [OF rest, of line chunks] True False line by (simp split: if_splits)
      moreover have "subseq (?C @ (if line = [] then [] else [line]) @ rest) (?C @ line # rest)"
        using drop_line by (rule list_emb_append_mono [OF subseq_order.order_refl])
      ultimately show ?thesis
        using True subseq_order.order_trans by fastforce
    next
      case nonempty: False
      then show ?thesis
        using Cons.IH [OF rest, of "cur @ NL # line" chunks] False line
        by (simp add: split_append_sep)
    qed
  qed
qed

lemma chunkLoop_linesKept:
  "list_all (\<lambda>l. NL \<notin> set l) ls \<Longrightarrow>
   concat (map (split NL) (chunkLoop n ls cur chunks)) =
   concat (map (split NL) chunks) @ (if cur = [] then [] else split NL cur)
     @ linesKept n ls (length cur)"
proof (induction ls arbitrary: cur chunks)
  case Nil
  then show ?case by simp
next
  case (Cons line rest)
  then have line: "split NL line = [line]" and rest: "list_all (\<lambda>l. NL \<notin> set l) rest"
    by (simp_all add: split_no_sep)
  show ?case
  proof (cases "cur = []")
    case True
    show ?thesis
    proof (cases "line = []")
      case empty: True
      then show ?thesis
        using Cons.IH [OF rest, of "[]" chunks] True by auto
    next
      case False
      then show ?thesis
        using Cons.IH [OF rest, of line chunks] True line by auto
    qed
  next
    case False
    show ?thesis
    proof (cases "length (cur @ NL # line) > n")
      case True
      then show ?thesis
        using Cons.IH [OF rest, of line "chunks @ [cur]"] False line by auto
    next
      case fits: False
      then show ?thesis
        using Cons.IH [OF rest, of "cur @ NL # line" chunks] False line
        by (auto simp add: split_append_sep)
    qed
  qed
qed

lemma linesKept_subset: "set (linesKept n ls len) \<subseteq> set ls"
  by (induction ls arbitrary: len) auto

lemma linesKept_no_empty: "list_all (\<lambda>l. l \<noteq> []) ls \<Longrightarrow> linesKept n ls len = ls"
  by (induction ls arbitrary: len) auto

lemma split_join:
  "ls \<noteq> [] \<Longrightarrow> list_all (\<lambda>l. c \<notin> set l) ls \<Longrightarrow> split c (join c ls) = ls"
proof (induction ls)
  case Nil
  then show ?case by simp
next
  case (Cons l ls)
  show ?case
  proof (cases ls)
    case Nil
    then show ?thesis using Cons.prems by (simp add: split_no_sep)
  next
    case (Cons x xs)
    then have "join c (l # ls) = l @ c # join c ls" by simp
    then show ?thesis using Cons Cons.IH Cons.prems by (simp add: split_append_sep split_no_sep)
  qed
qed

lemma length_join: "length (join c ls) = sum_list (map length ls) + (length ls - 1)"
proof (induction ls)
  case Nil
  then show ?case by simp
next
  case (Cons l ls)
  then show ?case by (cases ls) simp_all
qed

lemma join_Cons2: "join c ((cur @ c # l) # ls) = join c (cur # l # ls)"
  by (cases ls) simp_all

lemma chunkLoop_fill:
  "list_all (\<lambda>l. l \<noteq> []) ls \<Longrightarrow> cur \<noteq> [] \<Longrightarrow>
   length cur + sum_list (map (\<lambda>l. 1 + length l) ls) \<le> n \<Longrightarrow>
   chunkLoop n (ls @ rest) cur chunks = chunkLoop n rest (join NL (cur # ls)) chunks"
proof (induction ls arbitrary: cur)
  case Nil
  then show ?case by simp
next
  case (Cons l ls)
  have "chunkLoop n ((l # ls) @ rest) cur chunks = chunkLoop n (ls @ rest) (cur @ NL # l) chunks"
    using Cons.prems by simp
  also have "\<dots> = chunkLoop n rest (join NL ((cur @ NL # l) # ls)) chunks"
    using Cons.prems by (intro Cons.IH) simp_all
  finally show ?case by (simp add: join_Cons2)
qed

lemma wideLine_facts:
  "wideLine \<noteq> []" "length wideLine = 119" "NL \<notin> set wideLine"
  by (simp_all add: wideLine_def NL_def)

lemma fullChunkLines_facts:
  "list_all (\<lambda>l. l \<noteq> []) fullChunkLines"
  "list_all (\<lambda>l. NL \<notin> set l) fullChunkLines"
  "sum_list (map length fullChunkLines) = 3947"
  "length fullChunkLines = 34"
proof -
  have short: "NL \<notin> set (replicate 20 (97::nat))"
    by (simp add: NL_def)
  show "list_all (\<lambda>l. l \<noteq> []) fullChunkLines"
    by (simp add: fullChunkLines_def wideLine_facts list_all_iff)
  show "list_all (\<lambda>l. NL \<notin> set l) fullChunkLines"
    using short by (simp add: fullChunkLines_def wideLine_facts list_all_iff)
  show "sum_list (map length fullChunkLines) = 3947"
    by (simp add: fullChunkLines_def wideLine_facts sum_list_replicate)
  show "length fullChunkLines = 34"
    by (simp add: fullChunkLines_def)
qed

lemma full_chunk_length: "length (join NL fullChunkLines) = 3980"
  by (simp add: length_join fullChunkLines_facts)

lemma blank_after_full_chunk:
  "splitScreenContent (join NL (fullChunkLines @ [[], js ''b''])) = [join NL fullChunkLines, js ''b'']"
proof -
  let ?ls = "fullChunkLines @ [[], js ''b'']"
  have nosep: "list_all (\<lambda>l. NL \<notin> set l) ?ls"
    using fullChunkLines_facts(2) by (simp add: js_def NL_def)
  have len: "length (join NL ?ls) = 3983"
    by (simp add: length_join fullChunkLines_facts js_def)
  have sp: "split NL (join NL ?ls) = ?ls"
    using nosep by (intro split_join) simp_all
  have tail: "list_all (\<lambda>l. l \<noteq> []) (replicate 32 wideLine @ [replicate 20 97])"
    by (simp add: wideLine_facts list_all_iff)
  have "chunkLoop 3980 ?ls [] [] =
          chunkLoop 3980 ((replicate 32 wideLine @ [replicate 20 97]) @ [[], js ''b'']) wideLine []"
    by (simp add: fullChunkLines_def wideLine_facts)
  also have "\<dots> = chunkLoop 3980 [[], js ''b'']
                      (join NL (wideLine # replicate 32 wideLine @ [replicate 20 97])) []"
    using tail by (intro chunkLoop_fill) (simp_all add: wideLine_facts sum_list_replicate)
  also have "\<dots> = chunkLoop 3980 [[], js ''b''] (join NL fullChunkLines) []"
    by (simp only: fullChunkLines_def)
  also have "\<dots> = [join NL fullChunkLines, js ''b'']"
  proof -
    have "join NL fullChunkLines \<noteq> []"
      using full_chunk_length by auto
    then show ?thesis
      using full_chunk_length by (simp add: js_def)
  qed
  finally show ?thesis
    using len sp by (simp add: splitScreenContent_def splitWithLimit_def TELEGRAM_MAX_LENGTH_def)
qed

text \<open>
  Claim C8, as stated, fails on a screen in which an empty line follows a chunk that is
  full: for the 34 lines above, an empty line and the line \<open>b\<close> (3983 characters),
  \<open>splitScreenContent\<close> returns the 34 lines as one chunk of 3980 characters and \<open>b\<close> as
  the second. The empty line between them is lost, and joining the chunks with newlines
  does not give the text back.
\<close>

theorem blank_line_after_full_chunk_counterexample:
  "splitScreenContent (join NL (fullChunkLines @ [[], js ''b''])) = [join NL fullChunkLines, js ''b'']
   \<and> join NL (splitScreenContent (join NL (fullChunkLines @ [[], js ''b'']))) \<noteq>
       join NL (fullChunkLines @ [[], js ''b''])"
proof -
  have "join NL (splitScreenContent (join NL (fullChunkLines @ [[], js ''b'']))) =
          join NL fullChunkLines @ NL # js ''b''"
    by (simp add: blank_after_full_chunk)
  then have "length (join NL (splitScreenContent (join NL (fullChunkLines @ [[], js ''b''])))) = 3982"
    by (simp add: full_chunk_length js_def)
  moreover have "length (join NL (fullChunkLines @ [[], js ''b''])) = 3983"
    by (simp add: length_join fullChunkLines_facts js_def)
  ultimately have "join NL (splitScreenContent (join NL (fullChunkLines @ [[], js ''b'']))) \<noteq>
                     join NL (fullChunkLines @ [[], js ''b''])"
    by auto
  then show ?thesis
    using blank_after_full_chunk by simp
qed

lemma chunks_rejoined:
  assumes "n < length t"
  shows "concat (map (split NL) (splitWithLimit n t)) = linesKept n (split NL t) 0"
    and "join NL (splitWithLimit n t) = join NL (linesKept n (split NL t) 0)"
    and "join NL (splitWithLimit n t) = t \<longleftrightarrow> linesKept n (split NL t) 0 = split NL t"
proof -
  have nosep: "list_all (\<lambda>l. NL \<notin> set l) (split NL t)"
    using split_lines_no_sep by (auto simp add: list_all_iff)
  have chunks: "splitWithLimit n t = chunkLoop n (split NL t) [] []"
    using assms by (simp add: splitWithLimit_def)
  show lines: "concat (map (split NL) (splitWithLimit n t)) = linesKept n (split NL t) 0"
    using chunkLoop_linesKept [OF nosep, of n "[]" "[]"] chunks by simp
  show joined: "join NL (splitWithLimit n t) = join NL (linesKept n (split NL t) 0)"
    using lines join_concat_split [of NL "splitWithLimit n t"] by simp
  show "join NL (splitWithLimit n t) = t \<longleftrightarrow> linesKept n (split NL t) 0 = split NL t"
  proof
    assume "linesKept n (split NL t) 0 = split NL t"
    then show "join NL (splitWithLimit n t) = t"
      using joined by (simp add: join_split)
  next
    assume exact: "join NL (splitWithLimit n t) = t"
    then have j: "join NL (linesKept n (split NL t) 0) = t"
      using joined by simp
    have "t \<noteq> []" using assms by auto
    then have ne: "linesKept n (split NL t) 0 \<noteq> []"
      using j by auto
    have "list_all (\<lambda>l. NL \<notin> set l) (linesKept n (split NL t) 0)"
      using nosep linesKept_subset [of n "split NL t" 0] by (auto simp add: list_all_iff)
    then have "split NL (join NL (linesKept n (split NL t) 0)) = linesKept n (split NL t) 0"
      using ne by (intro split_join)
    then show "linesKept n (split NL t) 0 = split NL t"
      using j by simp
  qed
qed

text \<open>
  Claim C8, amended. For every text \<open>t\<close> and every limit \<open>n\<close>: a text of at most \<open>n\<close>
  characters is returned whole. For a longer text the lines of the chunks, in order, are
  the lines of \<open>t\<close> except the empty lines met while the chunk being built is empty or
  already \<open>n\<close> or more characters long, and the chunks joined with newlines are those lines
  joined. So the chunks joined with newlines are \<open>t\<close> exactly if and only if \<open>t\<close> is at most
  \<open>n\<close> long or no such empty line occurs, in particular when \<open>t\<close> has no empty line; only
  empty lines are ever left out, and nothing is added or moved. Every chunk is at most \<open>n\<close>
  long or is a single line of \<open>t\<close> that is longer than \<open>n\<close>. \<open>splitScreenContent\<close> is the
  case \<open>n = 3980\<close>.
\<close>

theorem chunks_keep_lines_within_limit:
  "(length t \<le> n \<longrightarrow> splitWithLimit n t = [t])
   \<and> (n < length t \<longrightarrow>
        concat (map (split NL) (splitWithLimit n t)) = linesKept n (split NL t) 0
        \<and> join NL (splitWithLimit n t) = join NL (linesKept n (split NL t) 0))
   \<and> (join NL (splitWithLimit n t) = t \<longleftrightarrow>
        length t \<le> n \<or> linesKept n (split NL t) 0 = split NL t)
   \<and> subseq (concat (map (split NL) (splitWithLimit n t))) (split NL t)
   \<and> filter (\<lambda>l. l \<noteq> []) (concat (map (split NL) (splitWithLimit n t))) =
       filter (\<lambda>l. l \<noteq> []) (split NL t)
   \<and> (list_all (\<lambda>l. l \<noteq> []) (split NL t) \<longrightarrow> join NL (splitWithLimit n t) = t)
   \<and> list_all (\<lambda>c. length c \<le> n \<or> (c \<in> set (split NL t) \<and> n < length c)) (splitWithLimit n t)"
proof (cases "length t \<le> n")
  case True
  then show ?thesis by (simp add: splitWithLimit_def)
next
  case False
  then have long: "n < length t" by simp
  have nosep: "list_all (\<lambda>l. NL \<notin> set l) (split NL t)"
    using split_lines_no_sep by (auto simp add: list_all_iff)
  have chunks: "splitWithLimit n t = chunkLoop n (split NL t) [] []"
    using False by (simp add: splitWithLimit_def)
  have s: "subseq (concat (map (split NL) (splitWithLimit n t))) (split NL t)"
    using chunkLoop_subseq [OF nosep, of n "[]" "[]"] chunks by simp
  have a: "filter (\<lambda>l. l \<noteq> []) (concat (map (split NL) (splitWithLimit n t))) =
           filter (\<lambda>l. l \<noteq> []) (split NL t)"
    using chunkLoop_nonempty_lines [OF nosep, of n "[]" "[]"] chunks by simp
  have b: "join NL (splitWithLimit n t) = t" if "list_all (\<lambda>l. l \<noteq> []) (split NL t)"
    using that chunks_rejoined(3) [OF long] by (simp add: linesKept_no_empty)
  have "list_all (\<lambda>c. length c \<le> n \<or> c \<in> set (split NL t)) (chunkLoop n (split NL t) [] [])"
    by (rule chunkLoop_bound) (auto simp add: list_all_iff)
  then have c: "list_all (\<lambda>c. length c \<le> n \<or> (c \<in> set (split NL t) \<and> n < length c))
                  (splitWithLimit n t)"
    using chunks by (auto simp add: list_all_iff)
  show ?thesis
    using False chunks_rejoined [OF long] s a b c by (simp add: join_split)
qed

theorem chunks_keep_lines_within_limit_witness:
  "5 < length (js ''ab'' @ [NL, NL] @ js ''cd'' @ [NL] @ js ''ef'')
   \<and> splitWithLimit 5 (js ''ab'' @ [NL, NL] @ js ''cd'' @ [NL] @ js ''ef'') =
       [js ''ab'' @ [NL], js ''cd'' @ [NL] @ js ''ef'']
   \<and> join NL (splitWithLimit 5 (js ''ab'' @ [NL, NL] @ js ''cd'' @ [NL] @ js ''ef'')) =
       js ''ab'' @ [NL, NL] @ js ''cd'' @ [NL] @ js ''ef''
   \<and> list_all (\<lambda>l. l \<noteq> []) (split NL (js ''ab'' @ [NL] @ js ''cd'' @ [NL] @ js ''ef''))
   \<and> join NL (splitWithLimit 5 (js ''ab'' @ [NL] @ js ''cd'' @ [NL] @ js ''ef'')) =
       js ''ab'' @ [NL] @ js ''cd'' @ [NL] @ js ''ef''
   \<and> length (js ''ab'' @ [NL, NL] @ js ''cd'') \<le> 10
   \<and> splitWithLimit 10 (js ''ab'' @ [NL, NL] @ js ''cd'') = [js ''ab'' @ [NL, NL] @ js ''cd'']"
proof -
  have h1: "5 < length (js ''ab'' @ [NL, NL] @ js ''cd'' @ [NL] @ js ''ef'')"
    by (simp add: js_def)
  have v1: "splitWithLimit 5 (js ''ab'' @ [NL, NL] @ js ''cd'' @ [NL] @ js ''ef'') =
              [js ''ab'' @ [NL], js ''cd'' @ [NL] @ js ''ef'']"
    by (simp add: splitWithLimit_def js_def NL_def)
  have k1: "linesKept 5 (split NL (js ''ab'' @ [NL, NL] @ js ''cd'' @ [NL] @ js ''ef'')) 0 =
              split NL (js ''ab'' @ [NL, NL] @ js ''cd'' @ [NL] @ js ''ef'')"
    by (simp add: js_def NL_def)
  have h2: "list_all (\<lambda>l. l \<noteq> []) (split NL (js ''ab'' @ [NL] @ js ''cd'' @ [NL] @ js ''ef''))"
    by (simp add: js_def NL_def)
  have h3: "length (js ''ab'' @ [NL, NL] @ js ''cd'') \<le> 10"
    by (simp add: js_def)
  from chunks_keep_lines_within_limit [of "js ''ab'' @ [NL, NL] @ js ''cd'' @ [NL] @ js ''ef''" 5]
       chunks_keep_lines_within_limit [of "js ''ab'' @ [NL] @ js ''cd'' @ [NL] @ js ''ef''" 5]
       chunks_keep_lines_within_limit [of "js ''ab'' @ [NL, NL] @ js ''cd''" 10]
       h1 v1 k1 h2 h3
  show ?thesis by blast
qed

section \<open>Properties of the session manager\<close>

lemma digits_value: "digitsValue (digits n) = n"
proof (induction n rule: digits.induct)
  case (1 n)
  show ?case
  proof (cases "n < 10")
    case True
    then show ?thesis by (simp add: digits.simps [of n] digitsValue_def)
  next
    case False
    then have "digitsValue (digits (n div 10)) = n div 10" using 1 by simp
    then show ?thesis using False by (simp add: digits.simps [of n] digitsValue_def)
  qed
qed

lemma digits_range: "c \<in> set (digits n) \<Longrightarrow> 48 \<le> c \<and> c \<le> 57"
proof (induction n rule: digits.induct)
  case (1 n)
  show ?case
  proof (cases "n < 10")
    case True
    then show ?thesis using 1 by (simp add: digits.simps [of n])
  next
    case False
    then have "c \<in> set (digits (n div 10)) \<or> c = 48 + n mod 10"
      using "1.prems" by (auto simp add: digits.simps [of n])
    then show ?thesis
    proof
      assume "c \<in> set (digits (n div 10))"
      then show ?thesis using "1.IH" False by simp
    next
      assume "c = 48 + n mod 10"
      moreover have "n mod 10 < 10" by simp
      ultimately show ?thesis by linarith
    qed
  qed
qed

lemma digits_inj: "digits m = digits n \<Longrightarrow> m = n"
  by (metis digits_value)

lemma numberToString_inj: "numberToString i = numberToString j \<Longrightarrow> i = j"
proof -
  assume a: "numberToString i = numberToString j"
  have hd_digit: "\<And>n. hd (digits n) \<noteq> 45"
  proof -
    fix n
    have "digits n \<noteq> []" by (simp add: digits.simps [of n])
    then have "hd (digits n) \<in> set (digits n)" by simp
    then show "hd (digits n) \<noteq> 45" using digits_range by fastforce
  qed
  show "i = j"
  proof (cases "i < 0")
    case True
    show ?thesis
    proof (cases "j < 0")
      case jn: True
      then have "digits (nat (- i)) = digits (nat (- j))"
        using a True by (simp add: numberToString_def)
      then have "nat (- i) = nat (- j)" by (rule digits_inj)
      then show ?thesis using True jn by simp
    next
      case False
      then have "45 # digits (nat (- i)) = digits (nat j)"
        using a True by (simp add: numberToString_def)
      then have "hd (digits (nat j)) = 45" by (metis list.sel(1))
      then show ?thesis using hd_digit by blast
    qed
  next
    case False
    show ?thesis
    proof (cases "j < 0")
      case True
      then have "digits (nat i) = 45 # digits (nat (- j))"
        using a False by (simp add: numberToString_def)
      then have "hd (digits (nat i)) = 45" by simp
      then show ?thesis using hd_digit by blast
    next
      case jp: False
      then have "digits (nat i) = digits (nat j)"
        using a False by (simp add: numberToString_def)
      then have "nat i = nat j" by (rule digits_inj)
      then show ?thesis using False jp by simp
    qed
  qed
qed

lemma numberToString_no_colon: "58 \<notin> set (numberToString i)"
proof
  assume "58 \<in> set (numberToString i)"
  then have "58 \<in> set (digits (nat (- i))) \<or> 58 \<in> set (digits (nat i))"
    by (auto simp add: numberToString_def split: if_splits)
  then show False using digits_range by fastforce
qed

lemma takeWhile_before: "c \<notin> set a \<Longrightarrow> takeWhile (\<lambda>x. x \<noteq> c) (a @ c # b) = a"
  by (induction a) auto

lemma sessionKey_inj: "sessionKey u n = sessionKey u' n' \<Longrightarrow> u = u' \<and> n = n'"
proof -
  assume a: "sessionKey u n = sessionKey u' n'"
  have "takeWhile (\<lambda>c. c \<noteq> 58) (sessionKey u n) = numberToString u" for u n
    unfolding sessionKey_def using numberToString_no_colon [of u]
    by (rule takeWhile_before)
  then have "numberToString u = numberToString u'" using a by metis
  then have u: "u = u'" by (rule numberToString_inj)
  then show ?thesis using a by (simp add: sessionKey_def)
qed

text \<open>
  Claim C10. \<open>createSession(userId, name)\<close> throws when the active-session map already has
  a session under the key of \<open>(userId, name)\<close>, and then the active-session map and the
  persisted store are what they were. Otherwise it returns a new session whose working
  directory is the home directory, adds it to the map under that key and nowhere else, and
  saves it in the store. The key stands for the pair: two pairs have the same key only when
  they are the same pair.
\<close>

theorem createSession_throws_or_inserts:
  "(activeSessions st (sessionKey uid n) \<noteq> None \<longrightarrow>
      createSession homedir st uid n cwdArg = (Inl SessionExists, st))
   \<and> (activeSessions st (sessionKey uid n) = None \<longrightarrow>
        createSession homedir st uid n None =
          (Inr \<lparr> name = n, userId = uid, cwd = homedir, outputBuffer = [], isRunning = False \<rparr>,
           st \<lparr> activeSessions := (activeSessions st)(sessionKey uid n \<mapsto>
                   \<lparr> name = n, userId = uid, cwd = homedir, outputBuffer = [], isRunning = False \<rparr>),
                sessions := (sessions st)((uid, n) \<mapsto> homedir) \<rparr>)
        \<and> dom (activeSessions (snd (createSession homedir st uid n None))) =
            insert (sessionKey uid n) (dom (activeSessions st))
        \<and> sessionKey uid n \<notin> dom (activeSessions st)
        \<and> (\<forall>k. k \<noteq> sessionKey uid n \<longrightarrow>
              activeSessions (snd (createSession homedir st uid n None)) k = activeSessions st k))
   \<and> (sessionKey uid n = sessionKey uid' n' \<longleftrightarrow> uid = uid' \<and> n = n')"
proof (intro conjI impI)
  assume "activeSessions st (sessionKey uid n) \<noteq> None"
  then show "createSession homedir st uid n cwdArg = (Inl SessionExists, st)"
    by (simp add: createSession_def Let_def)
next
  assume "activeSessions st (sessionKey uid n) = None"
  then show "createSession homedir st uid n None =
          (Inr \<lparr> name = n, userId = uid, cwd = homedir, outputBuffer = [], isRunning = False \<rparr>,
           st \<lparr> activeSessions := (activeSessions st)(sessionKey uid n \<mapsto>
                   \<lparr> name = n, userId = uid, cwd = homedir, outputBuffer = [], isRunning = False \<rparr>),
                sessions := (sessions st)((uid, n) \<mapsto> homedir) \<rparr>)"
    by (simp add: createSession_def Let_def saveSession_def)
next
  assume "activeSessions st (sessionKey uid n) = None"
  then show "dom (activeSessions (snd (createSession homedir st uid n None))) =
            insert (sessionKey uid n) (dom (activeSessions st))"
    by (simp add: createSession_def Let_def)
next
  assume "activeSessions st (sessionKey uid n) = None"
  then show "sessionKey uid n \<notin> dom (activeSessions st)"
    by (simp add: dom_def)
next
  assume "activeSessions st (sessionKey uid n) = None"
  then show "\<forall>k. k \<noteq> sessionKey uid n \<longrightarrow>
              activeSessions (snd (createSession homedir st uid n None)) k = activeSessions st k"
    by (simp add: createSession_def Let_def)
next
  show "sessionKey uid n = sessionKey uid' n' \<longleftrightarrow> uid = uid' \<and> n = n'"
    using sessionKey_inj by blast
qed

theorem createSession_throws_or_inserts_witness:
  "activeSessions \<lparr> activeSessions = Map.empty, sessions = Map.empty \<rparr> (sessionKey 7 (js ''dev'')) = None
   \<and> fst (createSession (js ''/home/u'') \<lparr> activeSessions = Map.empty, sessions = Map.empty \<rparr>
            7 (js ''dev'') None) =
       Inr \<lparr> name = js ''dev'', userId = 7, cwd = js ''/home/u'', outputBuffer = [], isRunning = False \<rparr>
   \<and> activeSessions
         (snd (createSession (js ''/home/u'') \<lparr> activeSessions = Map.empty, sessions = Map.empty \<rparr>
                 7 (js ''dev'') None))
         (sessionKey 7 (js ''dev'')) \<noteq> None
   \<and> createSession (js ''/home/u'')
         (snd (createSession (js ''/home/u'') \<lparr> activeSessions = Map.empty, sessions = Map.empty \<rparr>
                 7 (js ''dev'') None))
         7 (js ''dev'') None =
       (Inl SessionExists,
        snd (createSession (js ''/home/u'') \<lparr> activeSessions = Map.empty, sessions = Map.empty \<rparr>
               7 (js ''dev'') None))"
proof -
  have h1: "activeSessions \<lparr> activeSessions = Map.empty, sessions = Map.empty \<rparr>
              (sessionKey 7 (js ''dev'')) = None"
    by simp
  have h2: "activeSessions
         (snd (createSession (js ''/home/u'') \<lparr> activeSessions = Map.empty, sessions = Map.empty \<rparr>
                 7 (js ''dev'') None))
         (sessionKey 7 (js ''dev'')) \<noteq> None"
    by (simp add: createSession_def Let_def)
  from createSession_throws_or_inserts
         [of "\<lparr> activeSessions = Map.empty, sessions = Map.empty \<rparr>" 7 "js ''dev''" "js ''/home/u''"
            None 7 "js ''dev''"]
       createSession_throws_or_inserts
         [of "snd (createSession (js ''/home/u'') \<lparr> activeSessions = Map.empty, sessions = Map.empty \<rparr>
                 7 (js ''dev'') None)" 7 "js ''dev''" "js ''/home/u''" None 7 "js ''dev''"]
       h1 h2
  show ?thesis by simp
qed

section \<open>Properties of the executor's output handling\<close>

lemma slice_last_length: "0 < n \<Longrightarrow> length (slice_last n s) \<le> n"
  by (simp add: slice_last_def)

lemma slice_last_suffix: "\<exists>p. s = p @ slice_last n s"
  by (metis append_Nil append_take_drop_id slice_last_def)

lemma onData_capped:
  assumes "0 < maxOutput options"
    and "length (stdout b) \<le> 2 * maxOutput options"
    and "length (stderr b) \<le> 2 * maxOutput options"
  shows "length (stdout (onData options b d)) \<le> 2 * maxOutput options
         \<and> length (stderr (onData options b d)) \<le> 2 * maxOutput options"
  using assms by (cases d) (auto simp add: Let_def slice_last_def)

lemma foldl_onData_capped:
  assumes "0 < maxOutput options"
  shows "length (stdout b) \<le> 2 * maxOutput options \<Longrightarrow>
         length (stderr b) \<le> 2 * maxOutput options \<Longrightarrow>
         length (stdout (foldl (onData options) b ds)) \<le> 2 * maxOutput options
         \<and> length (stderr (foldl (onData options) b ds)) \<le> 2 * maxOutput options"
proof (induction ds arbitrary: b)
  case Nil
  then show ?case by simp
next
  case (Cons d ds)
  have "length (stdout (onData options b d)) \<le> 2 * maxOutput options
        \<and> length (stderr (onData options b d)) \<le> 2 * maxOutput options"
    using assms Cons.prems by (rule onData_capped)
  then show ?case using Cons.IH by simp
qed

text \<open>
  While the output accumulates, each buffer stays within twice a positive budget, and the
  output of a command that is not a directory change is the tail of what the buffers hold,
  cut to the budget.
\<close>

lemma collect_capped:
  "0 < maxOutput options \<Longrightarrow>
   length (stdout (collect options ds)) \<le> 2 * maxOutput options
   \<and> length (stderr (collect options ds)) \<le> 2 * maxOutput options"
  unfolding collect_def by (rule foldl_onData_capped) simp_all

lemma onClose_output_tail:
  assumes "0 < maxOutput options" and "\<not> cdMatch command"
  shows "length (output (onClose options existsSync command code dur b)) \<le> maxOutput options
         \<and> (\<exists>p. stdout b @ (if stderr b \<noteq> [] then NL # stderr b else []) =
                  p @ output (onClose options existsSync command code dur b))"
  using assms by (simp add: onClose_def Let_def slice_last_length slice_last_suffix)

text \<open>
  Claim C6 (code defect). With a budget of 10, a process that writes the 21 characters
  \<open>abcdefghijklmnopqrstu\<close> to its standard output in one chunk and exits with code 0 has
  its buffer cut to the last 10 characters while it accumulates. At the end the buffer is
  not longer than the budget, so the result carries \<open>truncated = false\<close>, although 11
  characters of the output were discarded.
\<close>

theorem live_cap_not_reported_as_truncation:
  "stdout (collect \<lparr> shell = js ''/bin/bash'', timeout = 30000, maxOutput = 10 \<rparr>
             [Stdout (js ''abcdefghijklmnopqrstu'')]) = js ''lmnopqrstu''
   \<and> runCommandResult \<lparr> shell = js ''/bin/bash'', timeout = 30000, maxOutput = 10 \<rparr> onlyTmp
         (js ''cat letters.txt'') [Stdout (js ''abcdefghijklmnopqrstu'')] (Close (Some 0)) 5 =
       \<lparr> output = js ''lmnopqrstu'', exitCode = 0, duration = 5, truncated = False, newCwd = None \<rparr>"
  by (simp add: runCommandResult_def collect_def onClose_def Let_def slice_last_def js_def
      cdMatch_def trimStart_def isWhiteSpace_def)

text \<open>
  A new working directory is reported only for a command that matched the \<open>cd\<close> pattern,
  closed with exit code 0 and printed, as the last line of the output, a path that exists.
\<close>

lemma newCwd_only_if:
  "newCwd (runCommandResult options existsSync command ds e dur) = Some p \<Longrightarrow>
   cdMatch command \<and> e = Close (Some 0) \<and> existsSync p"
  by (cases e) (auto simp add: runCommandResult_def onClose_def onError_def onTimeout_def Let_def
      split: if_splits)

lemma isWhiteSpace_NL: "isWhiteSpace NL"
  by (simp add: isWhiteSpace_def NL_def)

lemma trimEnd_snoc_NL: "trimEnd (s @ [NL]) = trimEnd s"
  by (simp add: trimEnd_def isWhiteSpace_NL)

lemma trimEnd_keeps: "s \<noteq> [] \<Longrightarrow> \<not> isWhiteSpace (last s) \<Longrightarrow> trimEnd (x @ s) = x @ s"
proof -
  assume a: "s \<noteq> []" "\<not> isWhiteSpace (last s)"
  have "rev (x @ butlast s @ [last s]) = last s # rev (butlast s) @ rev x"
    by simp
  then have r: "rev (x @ s) = last s # rev (butlast s) @ rev x"
    using a(1) by (metis append_butlast_last_id)
  have "dropWhile isWhiteSpace (last s # rev (butlast s) @ rev x) = last s # rev (butlast s) @ rev x"
    using a(2) by simp
  then have "dropWhile isWhiteSpace (rev (x @ s)) = rev (x @ s)"
    using r by (simp only:)
  then have "rev (dropWhile isWhiteSpace (rev (x @ s))) = x @ s"
    by (simp only: rev_rev_ident)
  then show ?thesis by (simp only: trimEnd_def)
qed

lemma trimStart_append:
  "s \<noteq> [] \<Longrightarrow> \<not> isWhiteSpace (hd s) \<Longrightarrow> trimStart (x @ s) = trimStart x @ s"
proof -
  assume a: "s \<noteq> []" "\<not> isWhiteSpace (hd s)"
  then have "dropWhile isWhiteSpace s = s" by (cases s) auto
  then show ?thesis by (simp add: trimStart_def dropWhile_append)
qed

lemma trim_path_line:
  assumes "path \<noteq> []" and "\<not> isWhiteSpace (hd path)" and "\<not> isWhiteSpace (last path)"
  shows "trim (pre @ path @ [NL]) = trimStart pre @ path"
proof -
  have "trimStart (pre @ path @ [NL]) = trimStart pre @ path @ [NL]"
    using trimStart_append [of "path @ [NL]" pre] assms by simp
  then have "trim (pre @ path @ [NL]) = trimEnd ((trimStart pre @ path) @ [NL])"
    by (simp add: trim_def)
  also have "\<dots> = trimEnd (trimStart pre @ path)"
    by (rule trimEnd_snoc_NL)
  also have "\<dots> = trimStart pre @ path"
    using assms by (simp add: trimEnd_keeps)
  finally show ?thesis .
qed

lemma trim_path:
  assumes "path \<noteq> []" and "\<not> isWhiteSpace (hd path)" and "\<not> isWhiteSpace (last path)"
  shows "trim path = path"
proof -
  have "dropWhile isWhiteSpace path = path" using assms by (cases path) auto
  then have "trim path = trimEnd ([] @ path)" by (simp add: trim_def trimStart_def)
  then show ?thesis using assms by (simp add: trimEnd_keeps del: append_Nil)
qed

lemma trimStart_suffix: "\<exists>p. s = p @ trimStart s"
  by (metis takeWhile_dropWhile_id trimStart_def)

lemma trimStart_ends_NL:
  assumes "pre = [] \<or> last pre = NL"
  shows "trimStart pre = [] \<or> (\<exists>q. trimStart pre = q @ [NL])"
proof (cases "trimStart pre = []")
  case True
  then show ?thesis by simp
next
  case False
  obtain p where p: "pre = p @ trimStart pre" using trimStart_suffix by blast
  then have "pre \<noteq> []" using False by auto
  then have "last pre = NL" using assms by simp
  then have "last (trimStart pre) = NL" using p False by (metis last_appendR)
  then have "trimStart pre = butlast (trimStart pre) @ [NL]"
    using False by (metis append_butlast_last_id)
  then show ?thesis by blast
qed

text \<open>
  When the process writes nothing to standard error, its standard output ends with the
  line \<open>path\<close> printed by \<open>pwd\<close> (on a line of its own, a path that exists and neither
  starts nor ends with white space), and the output fits the budget, then a \<open>cd\<close> command
  that closes with exit code 0 reports \<open>path\<close> as the new working directory, and the
  visible output is what came before that line, without leading white space.
\<close>

lemma cd_reports_directory:
  assumes cd: "cdMatch command"
    and out: "stdout b = pre @ path @ [NL]" and err: "stderr b = []"
    and pre: "pre = [] \<or> last pre = NL"
    and path: "path \<noteq> []" "NL \<notin> set path" "\<not> isWhiteSpace (hd path)" "\<not> isWhiteSpace (last path)"
    and ex: "existsSync path"
    and fits: "length (stdout b) \<le> maxOutput options"
  shows "newCwd (onClose options existsSync command (Some 0) dur b) = Some path"
    and "output (onClose options existsSync command (Some 0) dur b) @ [NL] = trimStart pre
         \<or> (output (onClose options existsSync command (Some 0) dur b) = [] \<and> trimStart pre = [])"
    and "\<not> truncated (onClose options existsSync command (Some 0) dur b)"
proof -
  have whole: "slice_last (maxOutput options) (stdout b) = stdout b"
    using fits by (simp add: slice_last_def)
  have tr: "trim (stdout b) = trimStart pre @ path"
    using out path by (simp add: trim_path_line)
  have lines: "split NL (trimStart pre @ path) =
                 (if trimStart pre = [] then [] else split NL (butlast (trimStart pre))) @ [path]"
  proof (cases "trimStart pre = []")
    case True
    then show ?thesis using path by (simp add: split_no_sep)
  next
    case False
    then obtain q where q: "trimStart pre = q @ [NL]"
      using trimStart_ends_NL [OF pre] by blast
    then have "split NL (trimStart pre @ path) = split NL (q @ NL # path)" by simp
    also have "\<dots> = split NL q @ [path]"
      using path by (simp add: split_append_sep split_no_sep)
    finally show ?thesis using q by simp
  qed
  have last_line: "trim (last (split NL (trim (stdout b)))) = path"
    using tr lines path by (simp add: trim_path)
  have taken: "cdMatch command \<and> Some (0::int) = Some 0 \<and> path \<noteq> [] \<and> existsSync path"
    using cd path ex by simp
  show "newCwd (onClose options existsSync command (Some 0) dur b) = Some path"
    using err whole last_line taken by (simp add: onClose_def Let_def)
  have o: "output (onClose options existsSync command (Some 0) dur b) =
             join NL (butlast (split NL (trim (stdout b))))"
    using err whole last_line taken by (simp add: onClose_def Let_def)
  show "output (onClose options existsSync command (Some 0) dur b) @ [NL] = trimStart pre
         \<or> (output (onClose options existsSync command (Some 0) dur b) = [] \<and> trimStart pre = [])"
  proof (cases "trimStart pre = []")
    case True
    then show ?thesis using o tr lines by simp
  next
    case False
    then have "output (onClose options existsSync command (Some 0) dur b) = butlast (trimStart pre)"
      using o tr lines by (simp add: join_split)
    moreover obtain q where "trimStart pre = q @ [NL]"
      using False trimStart_ends_NL [OF pre] by blast
    ultimately show ?thesis by simp
  qed
  show "\<not> truncated (onClose options existsSync command (Some 0) dur b)"
    using err fits by (simp add: onClose_def Let_def)
qed

text \<open>
  When the process prints nothing to standard error, the line printed by \<open>pwd\<close> is the last
  line of the output: \<open>cd /tmp && echo hi\<close> gives the new working directory \<open>/tmp\<close> and the
  output \<open>hi\<close>.
\<close>

lemma cd_without_stderr:
  "cdMatch (js ''cd /tmp && echo hi'')
   \<and> runCommandResult \<lparr> shell = js ''/bin/bash'', timeout = 30000, maxOutput = 4000 \<rparr> onlyTmp
         (js ''cd /tmp && echo hi'') [Stdout (js ''hi'' @ [NL] @ js ''/tmp'' @ [NL])]
         (Close (Some 0)) 5 =
       \<lparr> output = js ''hi'', exitCode = 0, duration = 5, truncated = False,
         newCwd = Some (js ''/tmp'') \<rparr>"
  by (simp add: runCommandResult_def collect_def onClose_def Let_def slice_last_def js_def NL_def
      cdMatch_def trim_def trimStart_def trimEnd_def isWhiteSpace_def isLineTerminator_def
      onlyTmp_def)

text \<open>
  Claim C7 (code defect). The command \<open>cd /tmp && echo warning >&2\<close> matches the pattern,
  \<open>/tmp\<close> exists and the process exits with code 0, having printed \<open>/tmp\<close> (the line of
  \<open>pwd\<close>) to standard output and \<open>warning\<close> to standard error. The handler appends standard
  error after standard output, takes \<open>warning\<close> for the last line, finds no such path, and
  reports no new working directory; the line \<open>/tmp\<close> stays in the output.
\<close>

theorem cd_with_stderr_reports_no_directory:
  "cdMatch (js ''cd /tmp && echo warning >&2'')
   \<and> onlyTmp (js ''/tmp'')
   \<and> runCommandResult \<lparr> shell = js ''/bin/bash'', timeout = 30000, maxOutput = 4000 \<rparr> onlyTmp
         (js ''cd /tmp && echo warning >&2'')
         [Stdout (js ''/tmp'' @ [NL]), Stderr (js ''warning'' @ [NL])] (Close (Some 0)) 5 =
       \<lparr> output = js ''/tmp'' @ [NL, NL] @ js ''warning'' @ [NL], exitCode = 0, duration = 5,
         truncated = False, newCwd = None \<rparr>"
  by (simp add: runCommandResult_def collect_def onClose_def Let_def slice_last_def js_def NL_def
      cdMatch_def trim_def trimStart_def trimEnd_def isWhiteSpace_def isLineTerminator_def
      onlyTmp_def)

section \<open>Properties of the executor's process table\<close>

text \<open>
  When the map holds a live process for the key, \<open>runCommand\<close> sends it the terminate
  signal, schedules the forced kill, and takes it out of the map before it registers the
  new process.
\<close>

lemma runCommand_aborts_registered:
  assumes "runningProcesses ex key = Some old" and "old < length (processes ex)"
    and "\<not> exited (processes ex ! old)"
  shows "signals (processes (runCommand key ex) ! old) = signals (processes ex ! old) @ [SIGTERM]"
    and "old \<in> set (killTimers (runCommand key ex))"
    and "runningProcesses (snd (abort key ex)) key = None"
    and "runningProcesses (runCommand key ex) key = Some (length (processes ex))"
    and "old \<notin> set (inFlight key (runCommand key ex))"
  using assms
  by (simp_all add: runCommand_def abort_def kill_def Let_def inFlight_def nth_append)

text \<open>
  Claim C9 (code defect). Three commands are started for the same session key, and the
  first process exits on its terminate signal before the third command is started. The
  second command aborts the first process and registers the second. When the first process
  exits, its \<open>close\<close> handler deletes the entry of the session key, which by then is the entry
  of the second process. The third command finds nothing in the map to abort: the second
  process has received no signal and has not exited, and the third runs beside it.
\<close>

theorem stale_close_handler_leaves_two_in_flight:
  "runningProcesses
     (runEvents [RunCommand (js ''7:default''), RunCommand (js ''7:default''), ProcessClosed 0])
     (js ''7:default'') = None
   \<and> inFlight (js ''7:default'')
       (runEvents [RunCommand (js ''7:default''), RunCommand (js ''7:default''), ProcessClosed 0])
       = [1]
   \<and> inFlight (js ''7:default'')
       (runEvents [RunCommand (js ''7:default''), RunCommand (js ''7:default''), ProcessClosed 0,
                   RunCommand (js ''7:default'')])
       = [1, 2]
   \<and> runningProcesses
       (runEvents [RunCommand (js ''7:default''), RunCommand (js ''7:default''), ProcessClosed 0,
                   RunCommand (js ''7:default'')])
       (js ''7:default'') = Some 2"
  by (simp add: runEvents_def newExecutor_def runCommand_def abort_def kill_def processClosed_def
      settle_def inFlight_def Let_def js_def upt_rec nth_append)

end
